theory Spec2Isabelle
  imports Complex_Main
begin

section \<open>The queue cog of the inhouse bot\<close>

text \<open>
  The development embeds \<^verbatim>\<open>inhouse_bot/cogs/queue_cog.py\<close>: the matchmaking
  orchestration \<^verbatim>\<open>run_matchmaking_logic\<close>, the queue display \<^verbatim>\<open>send_queue\<close> and the
  commands \<^verbatim>\<open>won\<close> and \<^verbatim>\<open>cancel_game\<close>. The cog calls into modules whose code is
  not part of the embedded file (\<^verbatim>\<open>game_queue\<close>, \<^verbatim>\<open>matchmaking_logic\<close>,
  \<^verbatim>\<open>checkmark_validation\<close>, \<^verbatim>\<open>get_last_game\<close>, the database session). The search, the
  participants' reactions, the store's verdict on a write and the contest lookup are
  parameters of the model; the waiting pool and the confirmation protocol are modelled
  from the specification and marked as such.

  Numbers: ids are natural numbers; the imbalance score and the predicted winrate are
  real numbers, so the two comparisons with 0.2 are exact.
\<close>

subsection \<open>Data\<close>

type_synonym player_id = nat
type_synonym channel_id = nat
type_synonym server_id = nat
type_synonym message_id = nat

datatype role = TOP | JGL | MID | BOT | SUP_role

datatype side = BLUE | RED

definition roles_list :: "role list" where
  "roles_list = [TOP, JGL, MID, BOT, SUP_role]"

text \<open>The game object returned by the search: the fields the cog reads.
  \<open>game_id\<close> is unset until the store has accepted the game.\<close>

record game =
  game_id :: "nat option"
  player_ids_list :: "player_id list"
  matchmaking_score :: real
  blue_expected_winrate :: real
  winner :: "side option"

text \<open>The command context: \<^verbatim>\<open>ctx.channel.id\<close>, \<^verbatim>\<open>ctx.guild.id\<close>, \<^verbatim>\<open>ctx.author.id\<close>.\<close>

record ctx =
  channel :: channel_id
  guild :: server_id
  author :: player_id

text \<open>Modelled from the spec: the waiting entry of the missing \<^verbatim>\<open>game_queue\<close> module.
  An entry is (participant, role, channel); the position in the table is the join order.
  The reservation of a ready check is a mark on the entry (the cog's own comment: the
  ready check is marked as ongoing), so that a re-queue restores the original position.\<close>

record queue_player =
  qp_player_id :: player_id
  qp_role :: role
  qp_channel_id :: channel_id
  ready_check_id :: "message_id option"

datatype error = PersistenceError | StopIteration | AlreadyScored | NotParticipant

datatype outcome = Returned | Raised error

text \<open>The texts the cog sends, with the values they interpolate.\<close>

datatype message =
    MatchFound "player_id list" real
  | QueueView "(role \<times> player_id list) list"
  | GameValidated "nat option"
  | CancelledBy player_id
  | CheckTimedOut
  | NotStarted real
  | AlreadyScoredNotice
  | NoOngoingGameNotice

text \<open>The keyword argument that scopes the drop of \<^verbatim>\<open>cancel_ready_check\<close>:
  \<^verbatim>\<open>channel_id=\<close> or \<^verbatim>\<open>server_id=\<close>.\<close>

datatype drop_scope = InChannel channel_id | InServer server_id

text \<open>The calls the cog makes to the outside, in the order it makes them.\<close>

datatype call =
    Send message_id message
  | Delete message_id
  | StartReadyCheck "player_id list" channel_id message_id
  | CheckmarkValidation message_id "player_id list" nat nat
  | SessionAdd game
  | ValidateReadyCheck message_id
  | CancelReadyCheck message_id "player_id list" drop_scope
  | ScoreGameFromWinningPlayer player_id server_id

text \<open>The state the cog acts on: the queue table, the stored games, the cog's cache of
  queue messages, the id the next sent message receives, and the log of calls.\<close>

record world =
  queue_players :: "queue_player list"
  games :: "game list"
  latest_queue_messages :: "channel_id \<rightharpoonup> message_id"
  next_message_id :: message_id
  calls :: "call list"

subsection \<open>The ready check protocol\<close>

datatype confirmation = Pending | Accepted | Declined

datatype proposal_state = Proposed | Validated | Cancelled | TimedOut

text \<open>A reaction of a participant: when (time units since the proposal), who, and
  whether it accepts.\<close>

record confirm_event =
  ev_time :: nat
  ev_player :: player_id
  ev_accept :: bool

text \<open>Modelled from the spec: the contest proposal of the missing ready-check
  coordinator, with the fields the confirmation protocol uses.\<close>

record proposal =
  prop_players :: "player_id list"
  prop_threshold :: nat
  prop_deadline :: nat
  prop_conf :: "player_id \<Rightarrow> confirmation"
  prop_state :: proposal_state

definition count_accepted :: "proposal \<Rightarrow> nat" where
  "count_accepted p = length (filter (\<lambda>q. prop_conf p q = Accepted) (prop_players p))"

definition none_declined :: "proposal \<Rightarrow> bool" where
  "none_declined p = (filter (\<lambda>q. prop_conf p q = Declined) (prop_players p) = [])"

text \<open>Modelled from the spec: entry of the missing ready-check coordinator into
  \<open>Proposed\<close>: the deadline timer is set and every confirmation state is pending.\<close>

definition propose :: "player_id list \<Rightarrow> nat \<Rightarrow> nat \<Rightarrow> proposal" where
  "propose ps threshold timeout =
     \<lparr>prop_players = ps, prop_threshold = threshold, prop_deadline = timeout,
      prop_conf = (\<lambda>_. Pending), prop_state = Proposed\<rparr>"

text \<open>Modelled from the spec: \<open>Confirm(participant, accept)\<close> of the missing ready-check
  coordinator. It is valid only while \<open>Proposed\<close> and only for a reserved participant
  (otherwise rejected, state unchanged). An accept that brings the count of accepted to
  the threshold with nobody declined validates; a decline cancels at once.\<close>

definition confirm :: "confirm_event \<Rightarrow> proposal \<Rightarrow> proposal" where
  "confirm e p =
     (if prop_state p \<noteq> Proposed \<or> ev_player e \<notin> set (prop_players p) then p
      else if ev_accept e then
        (let p' = p\<lparr>prop_conf := (prop_conf p)(ev_player e := Accepted)\<rparr>
         in if prop_threshold p' \<le> count_accepted p' \<and> none_declined p'
            then p'\<lparr>prop_state := Validated\<rparr> else p')
      else p\<lparr>prop_conf := (prop_conf p)(ev_player e := Declined), prop_state := Cancelled\<rparr>)"

text \<open>Modelled from the spec: the run of the missing ready-check coordinator over the
  serialized reactions. Terminal states are absorbing; a reaction at or after the
  deadline, or the end of the reactions, is the deadline elapsing while \<open>Proposed\<close>.\<close>

fun ready_check :: "proposal \<Rightarrow> confirm_event list \<Rightarrow> proposal" where
  "ready_check p [] = (if prop_state p = Proposed then p\<lparr>prop_state := TimedOut\<rparr> else p)"
| "ready_check p (e # es) =
     (if prop_state p \<noteq> Proposed then p
      else if prop_deadline p \<le> ev_time e then p\<lparr>prop_state := TimedOut\<rparr>
      else ready_check (confirm e p) es)"

text \<open>Modelled from the spec: the missing \<^verbatim>\<open>checkmark_validation\<close>, which the cog awaits
  for the pair (ready, players to drop). Validated is \<open>True\<close>; Cancelled is \<open>False\<close> with the
  decliners observed at cancellation; TimedOut is \<open>None\<close> with the participants still
  pending.\<close>

definition checkmark_validation ::
  "player_id list \<Rightarrow> nat \<Rightarrow> nat \<Rightarrow> confirm_event list \<Rightarrow> bool option \<times> player_id list" where
  "checkmark_validation validating_players_ids validation_threshold timeout evs =
     (let p = ready_check (propose validating_players_ids validation_threshold timeout) evs
      in case prop_state p of
           Validated \<Rightarrow> (Some True, [])
         | Cancelled \<Rightarrow> (Some False, filter (\<lambda>q. prop_conf p q = Declined) (prop_players p))
         | TimedOut \<Rightarrow> (None, filter (\<lambda>q. prop_conf p q = Pending) (prop_players p))
         | Proposed \<Rightarrow> (None, filter (\<lambda>q. prop_conf p q = Pending) (prop_players p)))"

subsection \<open>The waiting pool\<close>

text \<open>Modelled from the spec: the missing \<^verbatim>\<open>GameQueue(channel_id)\<close>, the waiting pool of a
  channel: its entries that no ready check has reserved, in join order.\<close>

definition GameQueue :: "channel_id \<Rightarrow> queue_player list \<Rightarrow> queue_player list" where
  "GameQueue c qs = filter (\<lambda>e. qp_channel_id e = c \<and> ready_check_id e = None) qs"

text \<open>Modelled from the spec: the missing \<^verbatim>\<open>game_queue.start_ready_check\<close>, the atomic
  reservation: every waiting entry the participants hold, in every channel, leaves the
  pools.\<close>

definition start_ready_check ::
  "player_id list \<Rightarrow> channel_id \<Rightarrow> message_id \<Rightarrow> queue_player list \<Rightarrow> queue_player list" where
  "start_ready_check player_ids channel_id ready_check_message_id qs =
     map (\<lambda>e. if qp_player_id e \<in> set player_ids \<and> ready_check_id e = None
              then e\<lparr>ready_check_id := Some ready_check_message_id\<rparr> else e) qs"

text \<open>Modelled from the spec: the missing \<^verbatim>\<open>game_queue.validate_ready_check\<close>: the
  proposal is discarded and its reserved entries with it.\<close>

definition validate_ready_check :: "message_id \<Rightarrow> queue_player list \<Rightarrow> queue_player list" where
  "validate_ready_check ready_check_id' qs =
     filter (\<lambda>e. ready_check_id e \<noteq> Some ready_check_id') qs"

definition in_scope :: "drop_scope \<Rightarrow> queue_player \<Rightarrow> bool" where
  "in_scope sc e = (case sc of InChannel c \<Rightarrow> qp_channel_id e = c | InServer s \<Rightarrow> True)"

text \<open>Modelled from the spec: the missing \<^verbatim>\<open>game_queue.cancel_ready_check\<close>. The drop set
  loses its entries, in the one channel (\<open>dequeue\<close>) or in every channel
  (\<open>dequeue_everywhere\<close>); every other reserved entry is back in its pool at its
  original position.\<close>

definition cancel_ready_check ::
  "message_id \<Rightarrow> player_id list \<Rightarrow> drop_scope \<Rightarrow> queue_player list \<Rightarrow> queue_player list" where
  "cancel_ready_check ready_check_id' ids_to_drop sc qs =
     map (\<lambda>e. if ready_check_id e = Some ready_check_id' then e\<lparr>ready_check_id := None\<rparr> else e)
       (filter (\<lambda>e. \<not> (qp_player_id e \<in> set ids_to_drop \<and> in_scope sc e)) qs)"

subsection \<open>What the cog is given\<close>

text \<open>The search \<^verbatim>\<open>matchmaking_logic.find_best_game\<close> on a channel's pool, the reactions to
  the ready check posted as a given message, whether the store rejects the write of a
  game, \<^verbatim>\<open>get_last_game\<close> (its second component, the participant, is never read by the
  cog) and \<^verbatim>\<open>matchmaking_logic.score_game_from_winning_player\<close>.\<close>

record externals =
  find_best_game :: "queue_player list \<Rightarrow> game option"
  confirmations :: "message_id \<Rightarrow> confirm_event list"
  store_rejects :: "game \<Rightarrow> bool"
  get_last_game :: "player_id \<Rightarrow> server_id \<Rightarrow> game list \<Rightarrow> game option"
  score_game_from_winning_player :: "player_id \<Rightarrow> server_id \<Rightarrow> game list \<Rightarrow> error + game list"

subsection \<open>The cog\<close>

text \<open>\<^verbatim>\<open>await ctx.send(...)\<close>: the message receives the next id, which is returned.\<close>

definition ctx_send :: "message \<Rightarrow> world \<Rightarrow> message_id \<times> world" where
  "ctx_send msg w =
     (next_message_id w,
      w\<lparr>next_message_id := Suc (next_message_id w),
        calls := calls w @ [Send (next_message_id w) msg]\<rparr>)"

text \<open>\<^verbatim>\<open>send_queue\<close>: sends the view of the channel's pool, one row per role, remembers
  the message and deletes the previous one.\<close>

definition send_queue :: "ctx \<Rightarrow> world \<Rightarrow> world" where
  "send_queue c w =
     (let channel_id = channel c;
          old_queue_message = latest_queue_messages w channel_id;
          queue = GameQueue channel_id (queue_players w);
          rows = map (\<lambda>r. (r, map qp_player_id (filter (\<lambda>qp. qp_role qp = r) queue))) roles_list;
          (m, w1) = ctx_send (QueueView rows) w;
          w2 = w1\<lparr>latest_queue_messages := (latest_queue_messages w1)(channel_id \<mapsto> m)\<rparr>
      in case old_queue_message of
           None \<Rightarrow> w2
         | Some old \<Rightarrow> w2\<lparr>calls := calls w2 @ [Delete old]\<rparr>)"

text \<open>\<^verbatim>\<open>with session_scope() as session: session.add(game)\<close>: the store either takes the
  game, giving it an id, or rejects the write, which raises.\<close>

definition session_add :: "externals \<Rightarrow> game \<Rightarrow> world \<Rightarrow> error + game \<times> world" where
  "session_add ext g w =
     (if store_rejects ext g then Inl PersistenceError
      else (let g' = g\<lparr>game_id := Some (length (games w))\<rparr>
            in Inr (g', w\<lparr>games := games w @ [g'], calls := calls w @ [SessionAdd g']\<rparr>)))"

datatype step = Restart | Stop outcome

text \<open>The body of \<^verbatim>\<open>run_matchmaking_logic\<close> up to its two tail calls of itself, which
  are the result \<open>Restart\<close>.\<close>

definition matchmaking_round :: "externals \<Rightarrow> ctx \<Rightarrow> world \<Rightarrow> step \<times> world" where
  "matchmaking_round ext c w =
     (let queue = GameQueue (channel c) (queue_players w) in
      case find_best_game ext queue of
        None \<Rightarrow> (Stop Returned, w)
      | Some game \<Rightarrow>
          if matchmaking_score game < 0.2 then
            (let (m, w1) = ctx_send (MatchFound (player_ids_list game)
                                       (blue_expected_winrate game * 100)) w;
                 w2 = w1\<lparr>queue_players :=
                           start_ready_check (player_ids_list game) (channel c) m (queue_players w1),
                         calls := calls w1 @ [StartReadyCheck (player_ids_list game) (channel c) m]\<rparr>;
                 w3 = send_queue c w2;
                 (ready, players_to_drop) =
                    checkmark_validation (player_ids_list game) 10 (3 * 60) (confirmations ext m);
                 w4 = w3\<lparr>calls := calls w3 @
                           [CheckmarkValidation m (player_ids_list game) 10 (3 * 60)]\<rparr>
             in case ready of
                  Some True \<Rightarrow>
                    (case session_add ext game w4 of
                       Inl err \<Rightarrow> (Stop (Raised err), w4)
                     | Inr (game', w5) \<Rightarrow>
                         (let w6 = w5\<lparr>queue_players := validate_ready_check m (queue_players w5),
                                      calls := calls w5 @ [ValidateReadyCheck m]\<rparr>
                          in (Stop Returned, snd (ctx_send (GameValidated (game_id game')) w6))))
                | Some False \<Rightarrow>
                    (let w5 = w4\<lparr>queue_players :=
                                   cancel_ready_check m players_to_drop (InChannel (channel c))
                                     (queue_players w4),
                                 calls := calls w4 @
                                   [CancelReadyCheck m players_to_drop (InChannel (channel c))]\<rparr>
                     in case players_to_drop of
                          [] \<Rightarrow> (Stop (Raised StopIteration), w5)
                        | first # _ \<Rightarrow> (Restart, snd (ctx_send (CancelledBy first) w5)))
                | None \<Rightarrow>
                    (let w5 = w4\<lparr>queue_players :=
                                   cancel_ready_check m players_to_drop (InServer (guild c))
                                     (queue_players w4),
                                 calls := calls w4 @
                                   [CancelReadyCheck m players_to_drop (InServer (guild c))]\<rparr>
                     in (Restart, snd (ctx_send CheckTimedOut w5))))
          else if 0.2 \<le> matchmaking_score game then
            (Stop Returned, snd (ctx_send (NotStarted ((0.5 + matchmaking_score game) * 100)) w))
          else (Stop Returned, w))"

text \<open>\<^verbatim>\<open>run_matchmaking_logic\<close>: the rounds, restarted after a cancelled or timed out
  ready check. The first argument bounds the number of rounds; \<open>None\<close> is a run that has
  not returned within the bound.\<close>

fun run_matchmaking_logic :: "nat \<Rightarrow> externals \<Rightarrow> ctx \<Rightarrow> world \<Rightarrow> (outcome \<times> world) option" where
  "run_matchmaking_logic 0 ext c w = None"
| "run_matchmaking_logic (Suc n) ext c w =
     (case matchmaking_round ext c w of
        (Restart, w') \<Rightarrow> run_matchmaking_logic n ext c w'
      | (Stop out, w') \<Rightarrow> Some (out, w'))"

text \<open>The test \<^verbatim>\<open>game and game.winner\<close> of both commands.\<close>

definition game_and_winner :: "game option \<Rightarrow> bool" where
  "game_and_winner g = (case g of None \<Rightarrow> False | Some game \<Rightarrow> winner game \<noteq> None)"

text \<open>\<^verbatim>\<open>won\<close>: scores the author's last game as a win, unless it has a winner already.\<close>

definition won :: "externals \<Rightarrow> ctx \<Rightarrow> world \<Rightarrow> outcome \<times> world" where
  "won ext c w =
     (let last_game = get_last_game ext (author c) (guild c) (games w) in
      if game_and_winner last_game then (Returned, snd (ctx_send AlreadyScoredNotice w))
      else (let w1 = w\<lparr>calls := calls w @ [ScoreGameFromWinningPlayer (author c) (guild c)]\<rparr>
            in case score_game_from_winning_player ext (author c) (guild c) (games w) of
                 Inl err \<Rightarrow> (Raised err, w1)
               | Inr gs \<Rightarrow> (Returned, w1\<lparr>games := gs\<rparr>)))"

text \<open>\<^verbatim>\<open>cancel_game\<close>: answers when the author's last game has a winner; the rest of the
  command is a note of work to do and no statement.\<close>

definition cancel_game :: "externals \<Rightarrow> ctx \<Rightarrow> world \<Rightarrow> outcome \<times> world" where
  "cancel_game ext c w =
     (let last_game = get_last_game ext (author c) (guild c) (games w) in
      if game_and_winner last_game then (Returned, snd (ctx_send NoOngoingGameNotice w))
      else (Returned, w))"

subsection \<open>Notions used to state the properties\<close>

text \<open>The calls made between two states of the world.\<close>

definition new_calls :: "world \<Rightarrow> world \<Rightarrow> call list" where
  "new_calls w w' = drop (length (calls w)) (calls w')"

fun is_start_ready_check :: "call \<Rightarrow> bool" where
  "is_start_ready_check (StartReadyCheck ps ch m) = True"
| "is_start_ready_check x = False"

definition ready_checks_started :: "call list \<Rightarrow> nat" where
  "ready_checks_started cs = length (filter is_start_ready_check cs)"

text \<open>The calls that one \<open>send_queue\<close> adds.\<close>

definition send_queue_calls :: "ctx \<Rightarrow> world \<Rightarrow> call list" where
  "send_queue_calls c w =
     Send (next_message_id w)
       (QueueView (map (\<lambda>r. (r, map qp_player_id
          (filter (\<lambda>qp. qp_role qp = r) (GameQueue (channel c) (queue_players w))))) roles_list))
     # (case latest_queue_messages w (channel c) of None \<Rightarrow> [] | Some old \<Rightarrow> [Delete old])"

text \<open>The world of a round at the point where the cog has announced the match, started
  the ready check, sent the queue and awaited the validation.\<close>

definition reserved_world :: "ctx \<Rightarrow> game \<Rightarrow> world \<Rightarrow> world" where
  "reserved_world c g w =
     (let (m, w1) = ctx_send (MatchFound (player_ids_list g) (blue_expected_winrate g * 100)) w;
          w2 = w1\<lparr>queue_players :=
                    start_ready_check (player_ids_list g) (channel c) m (queue_players w1),
                  calls := calls w1 @ [StartReadyCheck (player_ids_list g) (channel c) m]\<rparr>;
          w3 = send_queue c w2
      in w3\<lparr>calls := calls w3 @ [CheckmarkValidation m (player_ids_list g) 10 (3 * 60)]\<rparr>)"

text \<open>The world after the branch \<^verbatim>\<open>ready is True\<close> when the store takes the game.\<close>

definition validated_world :: "message_id \<Rightarrow> game \<Rightarrow> world \<Rightarrow> world" where
  "validated_world m g w4 =
     (let g' = g\<lparr>game_id := Some (length (games w4))\<rparr>;
          w5 = w4\<lparr>games := games w4 @ [g'], calls := calls w4 @ [SessionAdd g']\<rparr>;
          w6 = w5\<lparr>queue_players := validate_ready_check m (queue_players w5),
                  calls := calls w5 @ [ValidateReadyCheck m]\<rparr>
      in snd (ctx_send (GameValidated (game_id g')) w6))"

text \<open>The world after the call of \<open>cancel_ready_check\<close> in the two other branches.\<close>

definition cancelled_world :: "message_id \<Rightarrow> player_id list \<Rightarrow> drop_scope \<Rightarrow> world \<Rightarrow> world" where
  "cancelled_world m dropped sc w4 =
     w4\<lparr>queue_players := cancel_ready_check m dropped sc (queue_players w4),
        calls := calls w4 @ [CancelReadyCheck m dropped sc]\<rparr>"

text \<open>The calls of a round that proposes: the announcement, the reservation, the queue
  view, the validation, and then what the outcome of the validation adds.\<close>

definition outcome_calls :: "externals \<Rightarrow> ctx \<Rightarrow> game \<Rightarrow> world \<Rightarrow> call list" where
  "outcome_calls ext c g w =
     (let m = next_message_id w in
      case checkmark_validation (player_ids_list g) 10 180 (confirmations ext m) of
        (Some True, dropped) \<Rightarrow>
          (if store_rejects ext g then []
           else [SessionAdd (g\<lparr>game_id := Some (length (games w))\<rparr>), ValidateReadyCheck m,
                 Send (Suc (Suc m)) (GameValidated (Some (length (games w))))])
      | (Some False, dropped) \<Rightarrow>
          CancelReadyCheck m dropped (InChannel (channel c))
          # (case dropped of [] \<Rightarrow> [] | first # _ \<Rightarrow> [Send (Suc (Suc m)) (CancelledBy first)])
      | (None, dropped) \<Rightarrow>
          [CancelReadyCheck m dropped (InServer (guild c)), Send (Suc (Suc m)) CheckTimedOut])"

text \<open>The reactions that arrive before the deadline.\<close>

definition before_deadline :: "nat \<Rightarrow> confirm_event list \<Rightarrow> confirm_event list" where
  "before_deadline t evs = takeWhile (\<lambda>e. ev_time e < t) evs"

text \<open>While a proposal is open, nobody has declined and the accepted are below the
  threshold.\<close>

definition undecided :: "proposal \<Rightarrow> bool" where
  "undecided p \<longleftrightarrow> none_declined p \<and> count_accepted p < prop_threshold p"

text \<open>Message ids are not reused: every reservation mark in the table is the id of a
  message sent earlier.\<close>

definition marks_fresh :: "world \<Rightarrow> bool" where
  "marks_fresh w =
     list_all (\<lambda>e. case ready_check_id e of None \<Rightarrow> True | Some m \<Rightarrow> m < next_message_id w)
       (queue_players w)"

text \<open>The number of entries of a channel in the table, reserved or not.\<close>

definition chan_size :: "channel_id \<Rightarrow> queue_player list \<Rightarrow> nat" where
  "chan_size c qs = length (filter (\<lambda>e. qp_channel_id e = c) qs)"

text \<open>What the orchestration needs of the search: a candidate has ten participants, all
  of them waiting in the pool that was searched.\<close>

definition search_from_pool :: "externals \<Rightarrow> bool" where
  "search_from_pool ext \<longleftrightarrow>
     (\<forall>q g. find_best_game ext q = Some g \<longrightarrow>
        length (player_ids_list g) = 10 \<and> set (player_ids_list g) \<subseteq> qp_player_id ` set q)"

text \<open>The world after a number of rounds of the orchestration.\<close>

fun retried :: "externals \<Rightarrow> ctx \<Rightarrow> nat \<Rightarrow> world \<Rightarrow> world" where
  "retried ext c 0 w = w"
| "retried ext c (Suc k) w = retried ext c k (snd (matchmaking_round ext c w))"

subsection \<open>A concrete channel\<close>

text \<open>Ten participants wait in channel 7, two per role; participant 3 also waits in
  channel 8. The search proposes the ten when exactly they wait.\<close>

definition demo_entry :: "player_id \<Rightarrow> role \<Rightarrow> channel_id \<Rightarrow> queue_player" where
  "demo_entry p r ch = \<lparr>qp_player_id = p, qp_role = r, qp_channel_id = ch, ready_check_id = None\<rparr>"

definition demo_pool :: "queue_player list" where
  "demo_pool =
     [demo_entry 1 TOP 7, demo_entry 2 TOP 7, demo_entry 3 JGL 7, demo_entry 4 JGL 7,
      demo_entry 5 MID 7, demo_entry 6 MID 7, demo_entry 7 BOT 7, demo_entry 8 BOT 7,
      demo_entry 9 SUP_role 7, demo_entry 10 SUP_role 7, demo_entry 3 MID 8]"

definition demo_world :: world where
  "demo_world = \<lparr>queue_players = demo_pool, games = [], latest_queue_messages = Map.empty,
                  next_message_id = 0, calls = []\<rparr>"

definition demo_ctx :: ctx where
  "demo_ctx = \<lparr>channel = 7, guild = 1, author = 1\<rparr>"

definition demo_game :: "real \<Rightarrow> game" where
  "demo_game score =
     \<lparr>game_id = None, player_ids_list = [1, 2, 3, 4, 5, 6, 7, 8, 9, 10],
      matchmaking_score = score, blue_expected_winrate = 0.5 + score, winner = None\<rparr>"

definition demo_search :: "real \<Rightarrow> queue_player list \<Rightarrow> game option" where
  "demo_search score q =
     (if map qp_player_id q = [1, 2, 3, 4, 5, 6, 7, 8, 9, 10] then Some (demo_game score)
      else None)"

definition demo_last_game :: "player_id \<Rightarrow> server_id \<Rightarrow> game list \<Rightarrow> game option" where
  "demo_last_game p s gs = find (\<lambda>g. p \<in> set (player_ids_list g)) (rev gs)"

definition demo_ext :: "real \<Rightarrow> confirm_event list \<Rightarrow> bool \<Rightarrow> externals" where
  "demo_ext score evs rejects =
     \<lparr>find_best_game = demo_search score,
      confirmations = (\<lambda>m. if m = 0 then evs else []),
      store_rejects = (\<lambda>g. rejects),
      get_last_game = demo_last_game,
      score_game_from_winning_player = (\<lambda>p s gs. Inr (map (\<lambda>g. g\<lparr>winner := Some BLUE\<rparr>) gs))\<rparr>"

definition accepts :: "nat \<Rightarrow> player_id \<Rightarrow> confirm_event" where
  "accepts t p = \<lparr>ev_time = t, ev_player = p, ev_accept = True\<rparr>"

definition declines :: "nat \<Rightarrow> player_id \<Rightarrow> confirm_event" where
  "declines t p = \<lparr>ev_time = t, ev_player = p, ev_accept = False\<rparr>"

text \<open>A store that holds one game of the ten, with or without a winner.\<close>

definition demo_stored :: "side option \<Rightarrow> world" where
  "demo_stored win =
     demo_world\<lparr>games := [(demo_game 0.1)\<lparr>game_id := Some 0, winner := win\<rparr>]\<rparr>"

definition all_accept :: "confirm_event list" where
  "all_accept = [accepts 5 1, accepts 20 2, accepts 30 4, accepts 31 5, accepts 32 6, accepts 40 7,
      accepts 50 8, accepts 60 3, accepts 61 10, accepts 70 9]"

definition demo_decline :: "confirm_event list" where
  "demo_decline = [accepts 5 1, declines 10 3, declines 12 4]"

definition demo_silence :: "confirm_event list" where
  "demo_silence = [accepts 5 1, accepts 20 2, accepts 30 4, accepts 31 5, accepts 32 6,
      accepts 40 7, accepts 50 8, accepts 200 3]"

text \<open>Eleven participants wait in channel 7. The search proposes the first ten with a
  score of 0.1 while all eleven wait, and the ten without participant 3 with a score of
  0.3 once participant 3 has left.\<close>

definition retry_pool :: "queue_player list" where
  "retry_pool =
     [demo_entry 1 TOP 7, demo_entry 2 TOP 7, demo_entry 3 JGL 7, demo_entry 4 JGL 7,
      demo_entry 5 MID 7, demo_entry 6 MID 7, demo_entry 7 BOT 7, demo_entry 8 BOT 7,
      demo_entry 9 SUP_role 7, demo_entry 10 SUP_role 7, demo_entry 11 JGL 7]"

definition retry_world :: world where
  "retry_world = \<lparr>queue_players = retry_pool, games = [], latest_queue_messages = Map.empty,
                   next_message_id = 0, calls = []\<rparr>"

definition retry_game :: game where
  "retry_game =
     \<lparr>game_id = None, player_ids_list = [1, 2, 4, 5, 6, 7, 8, 9, 10, 11],
      matchmaking_score = 0.3, blue_expected_winrate = 0.8, winner = None\<rparr>"

definition retry_search :: "queue_player list \<Rightarrow> game option" where
  "retry_search q =
     (if map qp_player_id q = [1, 2, 3, 4, 5, 6, 7, 8, 9, 10, 11] then Some (demo_game 0.1)
      else if map qp_player_id q = [1, 2, 4, 5, 6, 7, 8, 9, 10, 11] then Some retry_game
      else None)"

definition retry_ext :: externals where
  "retry_ext =
     \<lparr>find_best_game = retry_search,
      confirmations = (\<lambda>m. if m = 0 then demo_decline else []),
      store_rejects = (\<lambda>g. False),
      get_last_game = demo_last_game,
      score_game_from_winning_player = (\<lambda>p s gs. Inr gs)\<rparr>"

section \<open>Properties\<close>

subsection \<open>The ready check protocol\<close>

lemma filter_all_of:
  assumes "length xs \<le> length (filter P xs)" and "x \<in> set xs"
  shows "P x"
proof (rule ccontr)
  assume "\<not> P x"
  with assms(2) have "length (filter P xs) < length xs" by (rule length_filter_less)
  with assms(1) show False by simp
qed

lemma ready_check_terminal: "prop_state p \<noteq> Proposed \<Longrightarrow> ready_check p evs = p"
  by (cases evs) simp_all

lemma none_declined_iff: "none_declined p \<longleftrightarrow> (\<forall>q\<in>set (prop_players p). prop_conf p q \<noteq> Declined)"
  by (simp add: none_declined_def filter_empty_conv)

lemma state_update_counts [simp]:
  "count_accepted (p\<lparr>prop_state := s\<rparr>) = count_accepted p"
  "none_declined (p\<lparr>prop_state := s\<rparr>) = none_declined p"
  by (simp_all add: count_accepted_def none_declined_def)

lemma confirm_fields [simp]:
  "prop_players (confirm e p) = prop_players p"
  "prop_threshold (confirm e p) = prop_threshold p"
  "prop_deadline (confirm e p) = prop_deadline p"
  by (simp_all add: confirm_def Let_def)

lemma ready_check_fields [simp]:
  "prop_players (ready_check p evs) = prop_players p"
  "prop_threshold (ready_check p evs) = prop_threshold p"
  "prop_deadline (ready_check p evs) = prop_deadline p"
  by (induction p evs rule: ready_check.induct) simp_all

lemma ready_check_not_proposed: "prop_state (ready_check p evs) \<noteq> Proposed"
  by (induction p evs rule: ready_check.induct) simp_all

lemma confirm_undecided:
  "prop_state p = Proposed \<Longrightarrow> undecided p \<Longrightarrow> prop_state (confirm e p) = Proposed
   \<Longrightarrow> undecided (confirm e p)"
  by (auto simp add: confirm_def Let_def undecided_def none_declined_iff not_le split: if_splits)

lemma confirm_validated:
  "prop_state p = Proposed \<Longrightarrow> prop_state (confirm e p) = Validated
   \<Longrightarrow> prop_threshold p \<le> count_accepted (confirm e p) \<and> none_declined (confirm e p)"
  by (auto simp add: confirm_def Let_def split: if_splits)

lemma confirm_cancelled:
  "prop_state p = Proposed \<Longrightarrow> undecided p \<Longrightarrow> prop_state (confirm e p) = Cancelled
   \<Longrightarrow> \<not> ev_accept e \<and> ev_player e \<in> set (prop_players p)
       \<and> (\<forall>q\<in>set (prop_players p). prop_conf (confirm e p) q = Declined \<longleftrightarrow> q = ev_player e)"
  by (auto simp add: confirm_def Let_def undecided_def none_declined_iff split: if_splits)

lemma confirm_proposed:
  "prop_state p = Proposed \<Longrightarrow> prop_state (confirm e p) = Proposed
   \<Longrightarrow> ev_accept e \<or> ev_player e \<notin> set (prop_players p)"
  by (auto simp add: confirm_def Let_def split: if_splits)

lemma confirm_not_timed_out:
  "prop_state p = Proposed \<Longrightarrow> prop_state (confirm e p) \<noteq> TimedOut"
  by (auto simp add: confirm_def Let_def split: if_splits)

lemma ready_check_validated:
  "prop_state p = Proposed \<Longrightarrow> prop_state (ready_check p evs) = Validated
   \<Longrightarrow> prop_threshold p \<le> count_accepted (ready_check p evs) \<and> none_declined (ready_check p evs)"
proof (induction p evs rule: ready_check.induct)
  case (1 p)
  then show ?case by simp
next
  case (2 p e es)
  from 2 have live: "\<not> prop_deadline p \<le> ev_time e" by (auto split: if_splits)
  with 2 have res: "ready_check p (e # es) = ready_check (confirm e p) es" by simp
  show ?case
  proof (cases "prop_state (confirm e p) = Proposed")
    case True
    with 2 live res show ?thesis by simp
  next
    case False
    then have "ready_check (confirm e p) es = confirm e p" by (rule ready_check_terminal)
    with 2 res confirm_validated [of p e] show ?thesis by simp
  qed
qed

lemma ready_check_cancelled:
  "prop_state p = Proposed \<Longrightarrow> undecided p \<Longrightarrow> prop_state (ready_check p evs) = Cancelled
   \<Longrightarrow> \<exists>e. find (\<lambda>e. \<not> ev_accept e \<and> ev_player e \<in> set (prop_players p)) evs = Some e
         \<and> e \<in> set (before_deadline (prop_deadline p) evs)
         \<and> (\<forall>q\<in>set (prop_players p). prop_conf (ready_check p evs) q = Declined \<longleftrightarrow> q = ev_player e)"
proof (induction p evs rule: ready_check.induct)
  case (1 p)
  then show ?case by simp
next
  case (2 p e es)
  from 2 have live: "\<not> prop_deadline p \<le> ev_time e" by (auto split: if_splits)
  with 2 have res: "ready_check p (e # es) = ready_check (confirm e p) es" by simp
  show ?case
  proof (cases "prop_state (confirm e p) = Proposed")
    case True
    with 2 live res confirm_undecided [of p e] confirm_proposed [of p e]
    show ?thesis by (auto simp add: before_deadline_def)
  next
    case False
    then have "ready_check (confirm e p) es = confirm e p" by (rule ready_check_terminal)
    with 2 res live confirm_cancelled [of p e] show ?thesis
      by (auto simp add: before_deadline_def)
  qed
qed

lemma ready_check_timed_out:
  "prop_state p = Proposed \<Longrightarrow> undecided p \<Longrightarrow> prop_state (ready_check p evs) = TimedOut
   \<Longrightarrow> undecided (ready_check p evs)"
proof (induction p evs rule: ready_check.induct)
  case (1 p)
  then show ?case by (simp add: undecided_def none_declined_def count_accepted_def)
next
  case (2 p e es)
  show ?case
  proof (cases "prop_deadline p \<le> ev_time e")
    case True
    with 2 show ?thesis by (simp add: undecided_def none_declined_def count_accepted_def)
  next
    case live: False
    with 2 have res: "ready_check p (e # es) = ready_check (confirm e p) es" by simp
    show ?thesis
    proof (cases "prop_state (confirm e p) = Proposed")
      case True
      with 2 live res confirm_undecided [of p e] show ?thesis by simp
    next
      case False
      then have "ready_check (confirm e p) es = confirm e p" by (rule ready_check_terminal)
      with 2 res confirm_not_timed_out [of p e] show ?thesis by simp
    qed
  qed
qed

lemma confirm_pending:
  "prop_state p = Proposed \<Longrightarrow> prop_state (confirm e p) = Proposed \<Longrightarrow> q \<in> set (prop_players p)
   \<Longrightarrow> prop_conf (confirm e p) q = Pending \<longleftrightarrow> prop_conf p q = Pending \<and> ev_player e \<noteq> q"
  by (auto simp add: confirm_def Let_def split: if_splits)

lemma ready_check_pending:
  "prop_state p = Proposed \<Longrightarrow> prop_state (ready_check p evs) = TimedOut
   \<Longrightarrow> q \<in> set (prop_players p)
   \<Longrightarrow> prop_conf (ready_check p evs) q = Pending \<longleftrightarrow>
         prop_conf p q = Pending \<and> q \<notin> ev_player ` set (before_deadline (prop_deadline p) evs)"
proof (induction p evs rule: ready_check.induct)
  case (1 p)
  then show ?case by (simp add: before_deadline_def)
next
  case (2 p e es)
  show ?case
  proof (cases "prop_deadline p \<le> ev_time e")
    case True
    with 2 show ?thesis by (simp add: before_deadline_def)
  next
    case live: False
    with 2 have res: "ready_check p (e # es) = ready_check (confirm e p) es" by simp
    show ?thesis
    proof (cases "prop_state (confirm e p) = Proposed")
      case True
      with 2 live res confirm_pending [of p e q] show ?thesis
        by (auto simp add: before_deadline_def)
    next
      case False
      then have "ready_check (confirm e p) es = confirm e p" by (rule ready_check_terminal)
      with 2 res confirm_not_timed_out [of p e] show ?thesis by simp
    qed
  qed
qed

lemma confirm_accepted:
  "prop_conf (confirm e p) q = Accepted \<Longrightarrow> prop_conf p q = Accepted \<or> (ev_player e = q \<and> ev_accept e)"
  by (auto simp add: confirm_def Let_def split: if_splits)

lemma ready_check_accepted:
  "prop_conf (ready_check p evs) q = Accepted
   \<Longrightarrow> prop_conf p q = Accepted
       \<or> (\<exists>e\<in>set (before_deadline (prop_deadline p) evs). ev_player e = q \<and> ev_accept e)"
proof (induction p evs rule: ready_check.induct)
  case (1 p)
  then show ?case by (simp split: if_splits)
next
  case (2 p e es)
  then show ?case using confirm_accepted [of e p q]
    by (auto simp add: before_deadline_def split: if_splits)
qed

lemma ready_check_append:
  "prop_state (ready_check p evs) = Validated \<or> prop_state (ready_check p evs) = Cancelled
   \<Longrightarrow> ready_check p (evs @ later) = ready_check p evs"
proof (induction evs arbitrary: p)
  case Nil
  then have "prop_state p \<noteq> Proposed" by (auto split: if_splits)
  then show ?case by (simp add: ready_check_terminal)
next
  case (Cons e es)
  then show ?case by (auto split: if_splits)
qed

lemma propose_fields [simp]:
  "prop_players (propose ps thr t) = ps"
  "prop_threshold (propose ps thr t) = thr"
  "prop_deadline (propose ps thr t) = t"
  "prop_state (propose ps thr t) = Proposed"
  "prop_conf (propose ps thr t) q = Pending"
  by (simp_all add: propose_def)

lemma propose_undecided: "0 < thr \<Longrightarrow> undecided (propose ps thr t)"
  by (simp add: undecided_def none_declined_def count_accepted_def)

lemma checkmark_true:
  "checkmark_validation ps thr t evs = (Some True, d)
   \<Longrightarrow> prop_state (ready_check (propose ps thr t) evs) = Validated"
  by (simp add: checkmark_validation_def Let_def split: proposal_state.splits)

lemma checkmark_false:
  "checkmark_validation ps thr t evs = (Some False, d)
   \<Longrightarrow> prop_state (ready_check (propose ps thr t) evs) = Cancelled
       \<and> d = filter (\<lambda>q. prop_conf (ready_check (propose ps thr t) evs) q = Declined) ps"
  by (auto simp add: checkmark_validation_def Let_def split: proposal_state.splits)

lemma checkmark_none:
  "checkmark_validation ps thr t evs = (None, d)
   \<Longrightarrow> prop_state (ready_check (propose ps thr t) evs) = TimedOut
       \<and> d = filter (\<lambda>q. prop_conf (ready_check (propose ps thr t) evs) q = Pending) ps"
  using ready_check_not_proposed [of "propose ps thr t" evs]
  by (auto simp add: checkmark_validation_def Let_def split: proposal_state.splits)

lemma checkmark_cases:
  obtains d where "checkmark_validation ps thr t evs = (Some True, d)"
  | d where "checkmark_validation ps thr t evs = (Some False, d)"
  | d where "checkmark_validation ps thr t evs = (None, d)"
proof -
  obtain a d where cv: "checkmark_validation ps thr t evs = (a, d)"
    by (cases "checkmark_validation ps thr t evs")
  show thesis
  proof (cases a)
    case None
    with cv that(3) show ?thesis by simp
  next
    case (Some b)
    with cv that(1,2) show ?thesis by (cases b) simp_all
  qed
qed

lemma declined_drop_set:
  assumes "0 < thr" and "checkmark_validation ps thr t evs = (Some False, d)"
  shows "\<exists>e. find (\<lambda>e. \<not> ev_accept e \<and> ev_player e \<in> set ps) evs = Some e
           \<and> e \<in> set (before_deadline t evs) \<and> set d = {ev_player e}"
proof -
  let ?r = "ready_check (propose ps thr t) evs"
  from assms(2) have c: "prop_state ?r = Cancelled"
    and d: "d = filter (\<lambda>q. prop_conf ?r q = Declined) ps"
    using checkmark_false by blast+
  from ready_check_cancelled [of "propose ps thr t" evs] c propose_undecided [OF assms(1)]
  obtain e where e: "find (\<lambda>e. \<not> ev_accept e \<and> ev_player e \<in> set ps) evs = Some e"
    "e \<in> set (before_deadline t evs)"
    "\<forall>q\<in>set ps. prop_conf ?r q = Declined \<longleftrightarrow> q = ev_player e"
    by auto
  from e(1) have "ev_player e \<in> set ps" by (auto simp add: find_Some_iff)
  with e(3) d have "set d = {ev_player e}" by auto
  with e show ?thesis by blast
qed

lemma declined_drop_nonempty:
  assumes "checkmark_validation ps thr t evs = (Some False, d)"
  shows "d \<noteq> [] \<and> set d \<subseteq> set ps"
proof -
  let ?r = "ready_check (propose ps thr t) evs"
  from assms have c: "prop_state ?r = Cancelled"
    and d: "d = filter (\<lambda>q. prop_conf ?r q = Declined) ps"
    using checkmark_false by blast+
  have "\<And>p. prop_state p = Proposed \<Longrightarrow> prop_state (ready_check p evs) = Cancelled
     \<Longrightarrow> \<exists>q\<in>set (prop_players p). prop_conf (ready_check p evs) q = Declined"
  proof (induction evs)
    case Nil
    then show ?case by simp
  next
    case (Cons e es)
    from Cons.prems have live: "\<not> prop_deadline p \<le> ev_time e" by (auto split: if_splits)
    show ?case
    proof (cases "prop_state (confirm e p) = Proposed")
      case True
      with Cons.prems live Cons.IH [of "confirm e p"] show ?thesis by simp
    next
      case False
      then have "ready_check (confirm e p) es = confirm e p" by (rule ready_check_terminal)
      with Cons.prems live show ?thesis
        by (auto simp add: confirm_def Let_def split: if_splits)
    qed
  qed
  from this [of "propose ps thr t"] c d show ?thesis by (auto simp add: filter_empty_conv)
qed

lemma timed_out_drop_set:
  assumes "checkmark_validation ps thr t evs = (None, d)"
  shows "set d = {q \<in> set ps. q \<notin> ev_player ` set (before_deadline t evs)}"
proof -
  let ?r = "ready_check (propose ps thr t) evs"
  from assms have c: "prop_state ?r = TimedOut"
    and d: "d = filter (\<lambda>q. prop_conf ?r q = Pending) ps"
    using checkmark_none by blast+
  have "\<And>q. q \<in> set ps \<Longrightarrow>
      prop_conf ?r q = Pending \<longleftrightarrow> q \<notin> ev_player ` set (before_deadline t evs)"
    using ready_check_pending [of "propose ps thr t" evs] c by simp
  with d show ?thesis by auto
qed

lemma timed_out_drop_nonempty:
  assumes "0 < thr" and "thr \<le> length ps" and "checkmark_validation ps thr t evs = (None, d)"
  shows "d \<noteq> [] \<and> set d \<subseteq> set ps"
proof -
  let ?r = "ready_check (propose ps thr t) evs"
  from assms(3) have c: "prop_state ?r = TimedOut"
    and d: "d = filter (\<lambda>q. prop_conf ?r q = Pending) ps"
    using checkmark_none by blast+
  from ready_check_timed_out [of "propose ps thr t" evs] c propose_undecided [OF assms(1)]
  have u: "undecided ?r" by simp
  then have lt: "length (filter (\<lambda>q. prop_conf ?r q = Accepted) ps) < length ps"
    using assms(2) by (simp add: undecided_def count_accepted_def)
  have "\<not> (\<forall>q\<in>set ps. prop_conf ?r q = Accepted)"
  proof
    assume "\<forall>q\<in>set ps. prop_conf ?r q = Accepted"
    then have "filter (\<lambda>q. prop_conf ?r q = Accepted) ps = ps" by simp
    with lt show False by simp
  qed
  then obtain q where q: "q \<in> set ps" "prop_conf ?r q \<noteq> Accepted" by blast
  from u q(1) have "prop_conf ?r q \<noteq> Declined"
    by (simp add: undecided_def none_declined_iff)
  with q have "prop_conf ?r q = Pending" by (cases "prop_conf ?r q") simp_all
  with q(1) d show ?thesis by (auto simp add: filter_empty_conv)
qed

lemma validated_unanimous:
  assumes "checkmark_validation ps thr t evs = (Some True, d)"
  shows "thr \<le> count_accepted (ready_check (propose ps thr t) evs)
       \<and> none_declined (ready_check (propose ps thr t) evs)"
  using ready_check_validated [of "propose ps thr t" evs] checkmark_true [OF assms] by simp

lemma checkmark_declined_absorbs:
  assumes "checkmark_validation ps thr t evs = (Some False, d)"
  shows "checkmark_validation ps thr t (evs @ later) = (Some False, d)"
proof -
  from checkmark_false [OF assms]
  have "prop_state (ready_check (propose ps thr t) evs) = Cancelled" by simp
  then have "ready_check (propose ps thr t) (evs @ later) = ready_check (propose ps thr t) evs"
    by (simp add: ready_check_append)
  with assms show ?thesis by (simp add: checkmark_validation_def)
qed

subsection \<open>The waiting pool\<close>

lemma pool_after_cancel:
  "\<forall>e\<in>set qs. ready_check_id e \<noteq> Some m \<Longrightarrow>
   GameQueue ch (cancel_ready_check m dropped sc (start_ready_check ps c m qs)) =
     filter (\<lambda>e. \<not> (qp_player_id e \<in> set dropped \<and> in_scope sc e)) (GameQueue ch qs)"
  by (induction qs) (auto simp add: GameQueue_def cancel_ready_check_def start_ready_check_def in_scope_def
       split: drop_scope.splits)

lemma pool_after_validate:
  "\<forall>e\<in>set qs. ready_check_id e \<noteq> Some m \<Longrightarrow>
   GameQueue ch (validate_ready_check m (start_ready_check ps c m qs)) =
     filter (\<lambda>e. qp_player_id e \<notin> set ps) (GameQueue ch qs)"
  by (induction qs) (auto simp add: GameQueue_def validate_ready_check_def start_ready_check_def)

lemma marks_fresh_next:
  "marks_fresh w \<Longrightarrow> \<forall>e\<in>set (queue_players w). ready_check_id e \<noteq> Some (next_message_id w)"
  by (auto simp add: marks_fresh_def list_all_iff split: option.splits)

lemma GameQueue_channel: "e \<in> set (GameQueue ch qs) \<Longrightarrow> qp_channel_id e = ch"
  by (simp add: GameQueue_def)

lemma chan_size_start [simp]:
  "chan_size c (start_ready_check ps ch m qs) = chan_size c qs"
  by (induction qs) (simp_all add: chan_size_def start_ready_check_def)

lemma start_keeps_entry:
  "e \<in> set qs \<Longrightarrow>
   \<exists>e'\<in>set (start_ready_check ps ch m qs).
      qp_channel_id e' = qp_channel_id e \<and> qp_player_id e' = qp_player_id e"
  by (induction qs) (auto simp add: start_ready_check_def)

lemma chan_size_cancel:
  "chan_size c (cancel_ready_check m d sc qs) =
     length (filter (\<lambda>e. \<not> (qp_player_id e \<in> set d \<and> in_scope sc e))
               (filter (\<lambda>e. qp_channel_id e = c) qs))"
  by (induction qs) (simp_all add: chan_size_def cancel_ready_check_def)

lemma chan_size_cancel_less:
  assumes "e \<in> set qs" and "qp_channel_id e = c" and "qp_player_id e \<in> set d"
    and "in_scope sc e"
  shows "chan_size c (cancel_ready_check m d sc qs) < chan_size c qs"
proof -
  from assms(1,2) have "e \<in> set (filter (\<lambda>e. qp_channel_id e = c) qs)" by simp
  moreover from assms(3,4)
  have "\<not> \<not> (qp_player_id e \<in> set d \<and> in_scope sc e)" by simp
  ultimately
  have lt: "length (filter (\<lambda>e. \<not> (qp_player_id e \<in> set d \<and> in_scope sc e))
                  (filter (\<lambda>e. qp_channel_id e = c) qs))
        < length (filter (\<lambda>e. qp_channel_id e = c) qs)"
    by (rule length_filter_less)
  have after: "chan_size c (cancel_ready_check m d sc qs) =
      length (filter (\<lambda>e. \<not> (qp_player_id e \<in> set d \<and> in_scope sc e))
                  (filter (\<lambda>e. qp_channel_id e = c) qs))"
    by (rule chan_size_cancel)
  have before: "chan_size c qs = length (filter (\<lambda>e. qp_channel_id e = c) qs)"
    by (simp only: chan_size_def)
  from lt show ?thesis by (simp only: after before)
qed

subsection \<open>The rounds of the orchestration\<close>

lemma send_queue_queue_players [simp]: "queue_players (send_queue c w) = queue_players w"
  by (simp add: send_queue_def ctx_send_def Let_def split: option.splits)

lemma send_queue_games [simp]: "games (send_queue c w) = games w"
  by (simp add: send_queue_def ctx_send_def Let_def split: option.splits)

lemma send_queue_next [simp]: "next_message_id (send_queue c w) = Suc (next_message_id w)"
  by (simp add: send_queue_def ctx_send_def Let_def split: option.splits)

lemma send_queue_calls: "calls (send_queue c w) = calls w @ send_queue_calls c w"
  by (simp add: send_queue_def send_queue_calls_def ctx_send_def Let_def split: option.splits)

lemma reserved_queue_players:
  "queue_players (reserved_world c g w) =
     start_ready_check (player_ids_list g) (channel c) (next_message_id w) (queue_players w)"
  by (simp add: reserved_world_def ctx_send_def Let_def)

lemma reserved_games: "games (reserved_world c g w) = games w"
  by (simp add: reserved_world_def ctx_send_def Let_def)

lemma reserved_next: "next_message_id (reserved_world c g w) = Suc (Suc (next_message_id w))"
  by (simp add: reserved_world_def ctx_send_def Let_def)

lemma reserved_calls:
  "\<exists>view. calls (reserved_world c g w) =
     calls w @ [Send (next_message_id w) (MatchFound (player_ids_list g) (blue_expected_winrate g * 100)),
                StartReadyCheck (player_ids_list g) (channel c) (next_message_id w)]
       @ view @ [CheckmarkValidation (next_message_id w) (player_ids_list g) 10 180]
     \<and> (\<forall>x\<in>set view. \<exists>i rows. x = Send i (QueueView rows) \<or> x = Delete i)"
  by (auto simp add: reserved_world_def ctx_send_def Let_def send_queue_calls send_queue_calls_def
       split: option.splits)

lemma round_none:
  "find_best_game ext (GameQueue (channel c) (queue_players w)) = None
   \<Longrightarrow> matchmaking_round ext c w = (Stop Returned, w)"
  by (simp add: matchmaking_round_def)

lemma round_unfair:
  "find_best_game ext (GameQueue (channel c) (queue_players w)) = Some g
   \<Longrightarrow> 0.2 \<le> matchmaking_score g
   \<Longrightarrow> matchmaking_round ext c w =
       (Stop Returned, w\<lparr>next_message_id := Suc (next_message_id w),
           calls := calls w @ [Send (next_message_id w) (NotStarted ((0.5 + matchmaking_score g) * 100))]\<rparr>)"
  by (simp add: matchmaking_round_def ctx_send_def)

lemma round_fair:
  "find_best_game ext (GameQueue (channel c) (queue_players w)) = Some g
   \<Longrightarrow> matchmaking_score g < 0.2
   \<Longrightarrow> matchmaking_round ext c w =
       (let m = next_message_id w; w4 = reserved_world c g w in
        case checkmark_validation (player_ids_list g) 10 180 (confirmations ext m) of
          (Some True, dropped) \<Rightarrow>
            (if store_rejects ext g then (Stop (Raised PersistenceError), w4)
             else (Stop Returned, validated_world m g w4))
        | (Some False, dropped) \<Rightarrow>
            (case dropped of
               [] \<Rightarrow> (Stop (Raised StopIteration), cancelled_world m dropped (InChannel (channel c)) w4)
             | first # _ \<Rightarrow> (Restart, snd (ctx_send (CancelledBy first)
                                 (cancelled_world m dropped (InChannel (channel c)) w4))))
        | (None, dropped) \<Rightarrow>
            (Restart, snd (ctx_send CheckTimedOut (cancelled_world m dropped (InServer (guild c)) w4))))"
  by (simp add: matchmaking_round_def reserved_world_def validated_world_def cancelled_world_def
        session_add_def Let_def ctx_send_def
       split: prod.splits option.splits bool.splits list.splits)

lemma ctx_send_fields [simp]:
  "queue_players (snd (ctx_send msg w)) = queue_players w"
  "games (snd (ctx_send msg w)) = games w"
  "calls (snd (ctx_send msg w)) = calls w @ [Send (next_message_id w) msg]"
  "next_message_id (snd (ctx_send msg w)) = Suc (next_message_id w)"
  by (simp_all add: ctx_send_def)

lemma cancelled_world_fields [simp]:
  "queue_players (cancelled_world m d sc w) = cancel_ready_check m d sc (queue_players w)"
  "games (cancelled_world m d sc w) = games w"
  "calls (cancelled_world m d sc w) = calls w @ [CancelReadyCheck m d sc]"
  "next_message_id (cancelled_world m d sc w) = next_message_id w"
  by (simp_all add: cancelled_world_def)

lemma validated_world_fields [simp]:
  "queue_players (validated_world m g w) = validate_ready_check m (queue_players w)"
  "games (validated_world m g w) = games w @ [g\<lparr>game_id := Some (length (games w))\<rparr>]"
  "calls (validated_world m g w) =
     calls w @ [SessionAdd (g\<lparr>game_id := Some (length (games w))\<rparr>), ValidateReadyCheck m,
                Send (next_message_id w) (GameValidated (Some (length (games w))))]"
  by (simp_all add: validated_world_def Let_def)

lemma new_calls_append [simp]: "calls w' = calls w @ cs \<Longrightarrow> new_calls w w' = cs"
  by (simp add: new_calls_def)

lemma round_fair_calls:
  assumes "find_best_game ext (GameQueue (channel c) (queue_players w)) = Some g"
    and "matchmaking_score g < 0.2"
  shows "calls (snd (matchmaking_round ext c w)) =
           calls (reserved_world c g w) @ outcome_calls ext c g w"
proof (cases rule: checkmark_cases [of "player_ids_list g" 10 180 "confirmations ext (next_message_id w)"])
  case (1 d)
  with assms show ?thesis
    by (simp add: round_fair outcome_calls_def Let_def reserved_games reserved_next)
next
  case (2 d)
  with assms show ?thesis
    by (cases d) (simp_all add: round_fair outcome_calls_def Let_def reserved_next)
next
  case (3 d)
  with assms show ?thesis
    by (simp add: round_fair outcome_calls_def Let_def reserved_next)
qed

lemma round_fair_new_calls:
  assumes "find_best_game ext (GameQueue (channel c) (queue_players w)) = Some g"
    and "matchmaking_score g < 0.2"
  shows "\<exists>view. new_calls w (snd (matchmaking_round ext c w)) =
           [Send (next_message_id w) (MatchFound (player_ids_list g) (blue_expected_winrate g * 100)),
            StartReadyCheck (player_ids_list g) (channel c) (next_message_id w)]
           @ view @ [CheckmarkValidation (next_message_id w) (player_ids_list g) 10 180]
           @ outcome_calls ext c g w
         \<and> (\<forall>x\<in>set view. \<exists>i rows. x = Send i (QueueView rows) \<or> x = Delete i)"
proof -
  from reserved_calls [of c g w] obtain view where
    v: "calls (reserved_world c g w) =
     calls w @ [Send (next_message_id w) (MatchFound (player_ids_list g) (blue_expected_winrate g * 100)),
                StartReadyCheck (player_ids_list g) (channel c) (next_message_id w)]
       @ view @ [CheckmarkValidation (next_message_id w) (player_ids_list g) 10 180]"
    and s: "\<forall>x\<in>set view. \<exists>i rows. x = Send i (QueueView rows) \<or> x = Delete i"
    by blast
  from round_fair_calls [OF assms] v
  have "new_calls w (snd (matchmaking_round ext c w)) =
           [Send (next_message_id w) (MatchFound (player_ids_list g) (blue_expected_winrate g * 100)),
            StartReadyCheck (player_ids_list g) (channel c) (next_message_id w)]
           @ view @ [CheckmarkValidation (next_message_id w) (player_ids_list g) 10 180]
           @ outcome_calls ext c g w"
    by (simp add: new_calls_def)
  with s show ?thesis by blast
qed

lemma outcome_calls_validated:
  assumes "checkmark_validation (player_ids_list g) 10 180 (confirmations ext (next_message_id w))
             = (Some True, d)"
  shows "outcome_calls ext c g w =
           (if store_rejects ext g then []
            else [SessionAdd (g\<lparr>game_id := Some (length (games w))\<rparr>),
                  ValidateReadyCheck (next_message_id w),
                  Send (Suc (Suc (next_message_id w))) (GameValidated (Some (length (games w))))])"
  using assms by (simp add: outcome_calls_def Let_def)

lemma outcome_calls_declined:
  assumes "checkmark_validation (player_ids_list g) 10 180 (confirmations ext (next_message_id w))
             = (Some False, d)"
  shows "outcome_calls ext c g w =
           CancelReadyCheck (next_message_id w) d (InChannel (channel c))
           # (case d of [] \<Rightarrow> []
              | first # _ \<Rightarrow> [Send (Suc (Suc (next_message_id w))) (CancelledBy first)])"
  using assms by (simp add: outcome_calls_def Let_def)

lemma outcome_calls_timed_out:
  assumes "checkmark_validation (player_ids_list g) 10 180 (confirmations ext (next_message_id w))
             = (None, d)"
  shows "outcome_calls ext c g w =
           [CancelReadyCheck (next_message_id w) d (InServer (guild c)),
            Send (Suc (Suc (next_message_id w))) CheckTimedOut]"
  using assms by (simp add: outcome_calls_def Let_def)

lemma validate_call_when_stored:
  assumes "find_best_game ext (GameQueue (channel c) (queue_players w)) = Some g"
    and "matchmaking_score g < 0.2"
    and "checkmark_validation (player_ids_list g) 10 180
           (confirmations ext (next_message_id w)) = (Some True, d)"
    and "\<not> store_rejects ext g"
  shows "ValidateReadyCheck (next_message_id w)
           \<in> set (new_calls w (snd (matchmaking_round ext c w)))"
  using round_fair_new_calls [OF assms(1,2)] outcome_calls_validated [OF assms(3), of c] assms(4)
  by auto

lemma round_not_stop_iteration:
  "fst (matchmaking_round ext c w) \<noteq> Stop (Raised StopIteration)"
proof (cases "find_best_game ext (GameQueue (channel c) (queue_players w))")
  case None
  then show ?thesis by (simp add: round_none)
next
  case (Some g)
  show ?thesis
  proof (cases "matchmaking_score g < 0.2")
    case False
    then have "0.2 \<le> matchmaking_score g" by simp
    from round_unfair [OF Some this] show ?thesis by simp
  next
    case True
    show ?thesis
    proof (cases rule: checkmark_cases
        [of "player_ids_list g" 10 180 "confirmations ext (next_message_id w)"])
      case (1 d)
      with Some True show ?thesis by (simp add: round_fair Let_def)
    next
      case (2 d)
      from declined_drop_nonempty [OF 2] obtain first rest where "d = first # rest"
        by (cases d) auto
      with 2 Some True show ?thesis by (simp add: round_fair Let_def)
    next
      case (3 d)
      with Some True show ?thesis by (simp add: round_fair Let_def)
    qed
  qed
qed

lemma round_declined:
  assumes "find_best_game ext (GameQueue (channel c) (queue_players w)) = Some g"
    and "matchmaking_score g < 0.2"
    and "checkmark_validation (player_ids_list g) 10 180
           (confirmations ext (next_message_id w)) = (Some False, d)"
  shows "fst (matchmaking_round ext c w) = Restart"
    and "queue_players (snd (matchmaking_round ext c w)) =
           cancel_ready_check (next_message_id w) d (InChannel (channel c))
             (start_ready_check (player_ids_list g) (channel c) (next_message_id w)
                (queue_players w))"
    and "games (snd (matchmaking_round ext c w)) = games w"
proof -
  from declined_drop_nonempty [OF assms(3)] obtain first rest where "d = first # rest"
    by (cases d) auto
  with assms have "matchmaking_round ext c w =
      (Restart, snd (ctx_send (CancelledBy first)
         (cancelled_world (next_message_id w) d (InChannel (channel c)) (reserved_world c g w))))"
    by (simp add: round_fair Let_def)
  then show "fst (matchmaking_round ext c w) = Restart"
    and "queue_players (snd (matchmaking_round ext c w)) =
           cancel_ready_check (next_message_id w) d (InChannel (channel c))
             (start_ready_check (player_ids_list g) (channel c) (next_message_id w)
                (queue_players w))"
    and "games (snd (matchmaking_round ext c w)) = games w"
    by (simp_all add: reserved_queue_players reserved_games)
qed

lemma round_timed_out:
  assumes "find_best_game ext (GameQueue (channel c) (queue_players w)) = Some g"
    and "matchmaking_score g < 0.2"
    and "checkmark_validation (player_ids_list g) 10 180
           (confirmations ext (next_message_id w)) = (None, d)"
  shows "fst (matchmaking_round ext c w) = Restart"
    and "queue_players (snd (matchmaking_round ext c w)) =
           cancel_ready_check (next_message_id w) d (InServer (guild c))
             (start_ready_check (player_ids_list g) (channel c) (next_message_id w)
                (queue_players w))"
    and "games (snd (matchmaking_round ext c w)) = games w"
proof -
  from assms have "matchmaking_round ext c w =
      (Restart, snd (ctx_send CheckTimedOut
         (cancelled_world (next_message_id w) d (InServer (guild c)) (reserved_world c g w))))"
    by (simp add: round_fair Let_def)
  then show "fst (matchmaking_round ext c w) = Restart"
    and "queue_players (snd (matchmaking_round ext c w)) =
           cancel_ready_check (next_message_id w) d (InServer (guild c))
             (start_ready_check (player_ids_list g) (channel c) (next_message_id w)
                (queue_players w))"
    and "games (snd (matchmaking_round ext c w)) = games w"
    by (simp_all add: reserved_queue_players reserved_games)
qed

lemma round_restart_found:
  assumes "fst (matchmaking_round ext c w) = Restart"
  shows "\<exists>g. find_best_game ext (GameQueue (channel c) (queue_players w)) = Some g
            \<and> matchmaking_score g < 0.2"
proof (cases "find_best_game ext (GameQueue (channel c) (queue_players w))")
  case None
  with assms show ?thesis by (simp add: round_none)
next
  case (Some g)
  show ?thesis
  proof (cases "matchmaking_score g < 0.2")
    case True
    with Some show ?thesis by simp
  next
    case False
    then have "0.2 \<le> matchmaking_score g" by simp
    from round_unfair [OF Some this] assms show ?thesis by simp
  qed
qed

lemma round_restart_iff:
  "fst (matchmaking_round ext c w) = Restart \<longleftrightarrow>
     (\<exists>g. find_best_game ext (GameQueue (channel c) (queue_players w)) = Some g
         \<and> matchmaking_score g < 0.2
         \<and> fst (checkmark_validation (player_ids_list g) 10 180
                   (confirmations ext (next_message_id w))) \<noteq> Some True)"
proof
  assume restart: "fst (matchmaking_round ext c w) = Restart"
  from round_restart_found [OF restart] obtain g where
    found: "find_best_game ext (GameQueue (channel c) (queue_players w)) = Some g"
    and fair: "matchmaking_score g < 0.2" by blast
  have "fst (checkmark_validation (player_ids_list g) 10 180
                   (confirmations ext (next_message_id w))) \<noteq> Some True"
  proof
    assume "fst (checkmark_validation (player_ids_list g) 10 180
                   (confirmations ext (next_message_id w))) = Some True"
    then obtain d where "checkmark_validation (player_ids_list g) 10 180
                   (confirmations ext (next_message_id w)) = (Some True, d)"
      by (cases "checkmark_validation (player_ids_list g) 10 180
                   (confirmations ext (next_message_id w))") simp
    with found fair restart show False
      by (cases "store_rejects ext g") (simp_all add: round_fair Let_def)
  qed
  with found fair show "\<exists>g. find_best_game ext (GameQueue (channel c) (queue_players w)) = Some g
         \<and> matchmaking_score g < 0.2
         \<and> fst (checkmark_validation (player_ids_list g) 10 180
                   (confirmations ext (next_message_id w))) \<noteq> Some True"
    by blast
next
  assume "\<exists>g. find_best_game ext (GameQueue (channel c) (queue_players w)) = Some g
         \<and> matchmaking_score g < 0.2
         \<and> fst (checkmark_validation (player_ids_list g) 10 180
                   (confirmations ext (next_message_id w))) \<noteq> Some True"
  then obtain g where
    found: "find_best_game ext (GameQueue (channel c) (queue_players w)) = Some g"
    and fair: "matchmaking_score g < 0.2"
    and open_end: "fst (checkmark_validation (player_ids_list g) 10 180
                   (confirmations ext (next_message_id w))) \<noteq> Some True"
    by blast
  show "fst (matchmaking_round ext c w) = Restart"
  proof (cases rule: checkmark_cases
      [of "player_ids_list g" 10 180 "confirmations ext (next_message_id w)"])
    case (1 d)
    with open_end show ?thesis by simp
  next
    case (2 d)
    from round_declined(1) [OF found fair 2] show ?thesis .
  next
    case (3 d)
    from round_timed_out(1) [OF found fair 3] show ?thesis .
  qed
qed

lemma round_restart_next:
  assumes "fst (matchmaking_round ext c w) = Restart"
  shows "next_message_id (snd (matchmaking_round ext c w)) = Suc (Suc (Suc (next_message_id w)))"
proof -
  from round_restart_found [OF assms] obtain g where
    found: "find_best_game ext (GameQueue (channel c) (queue_players w)) = Some g"
    and fair: "matchmaking_score g < 0.2" by blast
  show ?thesis
  proof (cases rule: checkmark_cases
      [of "player_ids_list g" 10 180 "confirmations ext (next_message_id w)"])
    case (1 d)
    with found fair assms have False
      by (cases "store_rejects ext g") (simp_all add: round_fair Let_def)
    then show ?thesis ..
  next
    case (2 d)
    from declined_drop_nonempty [OF 2] obtain first rest where "d = first # rest"
      by (cases d) auto
    with found fair 2 show ?thesis by (simp add: round_fair Let_def reserved_next)
  next
    case (3 d)
    with found fair show ?thesis by (simp add: round_fair Let_def reserved_next)
  qed
qed

subsection \<open>Termination of the retry\<close>

lemma dropped_has_entry:
  assumes "search_from_pool ext"
    and "find_best_game ext (GameQueue (channel c) (queue_players w)) = Some g"
    and "d \<noteq> []" and "set d \<subseteq> set (player_ids_list g)"
  shows "\<exists>e\<in>set (start_ready_check (player_ids_list g) (channel c) m (queue_players w)).
           qp_channel_id e = channel c \<and> qp_player_id e \<in> set d"
proof -
  from assms(3) obtain q where q: "q \<in> set d" by (cases d) auto
  from assms(1,2)
  have "set (player_ids_list g) \<subseteq> qp_player_id ` set (GameQueue (channel c) (queue_players w))"
    unfolding search_from_pool_def by blast
  with q assms(4) have "q \<in> qp_player_id ` set (GameQueue (channel c) (queue_players w))"
    by blast
  then obtain e where e: "e \<in> set (queue_players w)" "qp_channel_id e = channel c"
    "qp_player_id e = q"
    by (auto simp add: GameQueue_def)
  from start_keeps_entry [OF e(1), of "player_ids_list g" "channel c" m] e(2,3) q
  show ?thesis by auto
qed

lemma round_restart_decreases:
  assumes sound: "search_from_pool ext"
    and restart: "fst (matchmaking_round ext c w) = Restart"
  shows "chan_size (channel c) (queue_players (snd (matchmaking_round ext c w)))
           < chan_size (channel c) (queue_players w)"
proof -
  from round_restart_found [OF restart] obtain g where
    found: "find_best_game ext (GameQueue (channel c) (queue_players w)) = Some g"
    and fair: "matchmaking_score g < 0.2" by blast
  from sound found have ten: "length (player_ids_list g) = 10"
    unfolding search_from_pool_def by blast
  let ?m = "next_message_id w"
  let ?qs = "start_ready_check (player_ids_list g) (channel c) ?m (queue_players w)"
  show ?thesis
  proof (cases rule: checkmark_cases [of "player_ids_list g" 10 180 "confirmations ext ?m"])
    case (1 d)
    with found fair restart have False
      by (cases "store_rejects ext g") (simp_all add: round_fair Let_def)
    then show ?thesis ..
  next
    case (2 d)
    from declined_drop_nonempty [OF 2] have d: "d \<noteq> []" "set d \<subseteq> set (player_ids_list g)"
      by simp_all
    from dropped_has_entry [OF sound found d, of ?m] obtain e where
      e: "e \<in> set ?qs" "qp_channel_id e = channel c" "qp_player_id e \<in> set d" by blast
    from e(2) have "in_scope (InChannel (channel c)) e" by (simp add: in_scope_def)
    from chan_size_cancel_less [OF e this, of ?m] round_declined(2) [OF found fair 2]
    show ?thesis by simp
  next
    case (3 d)
    from timed_out_drop_nonempty [OF _ _ 3] ten
    have d: "d \<noteq> []" "set d \<subseteq> set (player_ids_list g)" by simp_all
    from dropped_has_entry [OF sound found d, of ?m] obtain e where
      e: "e \<in> set ?qs" "qp_channel_id e = channel c" "qp_player_id e \<in> set d" by blast
    have "in_scope (InServer (guild c)) e" by (simp add: in_scope_def)
    from chan_size_cancel_less [OF e this, of ?m] round_timed_out(2) [OF found fair 3]
    show ?thesis by simp
  qed
qed

lemma outcome_calls_no_start: "ready_checks_started (outcome_calls ext c g w) = 0"
proof (cases rule: checkmark_cases
    [of "player_ids_list g" 10 180 "confirmations ext (next_message_id w)"])
  case (1 d)
  then show ?thesis by (simp add: outcome_calls_validated ready_checks_started_def)
next
  case (2 d)
  then show ?thesis
    by (simp add: outcome_calls_declined ready_checks_started_def split: list.splits)
next
  case (3 d)
  then show ?thesis by (simp add: outcome_calls_timed_out ready_checks_started_def)
qed

lemma view_no_start:
  "\<forall>x\<in>set view. \<exists>i rows. x = Send i (QueueView rows) \<or> x = Delete i
   \<Longrightarrow> ready_checks_started view = 0"
  by (induction view) (auto simp add: ready_checks_started_def)

lemma ready_checks_started_append [simp]:
  "ready_checks_started (xs @ ys) = ready_checks_started xs + ready_checks_started ys"
  by (simp add: ready_checks_started_def)

lemma round_progress:
  assumes sound: "search_from_pool ext"
  shows "\<exists>t. calls (snd (matchmaking_round ext c w)) = calls w @ t
            \<and> ready_checks_started t \<le> 1
            \<and> ready_checks_started t \<le> chan_size (channel c) (queue_players w)"
proof (cases "find_best_game ext (GameQueue (channel c) (queue_players w))")
  case None
  then show ?thesis by (simp add: round_none ready_checks_started_def)
next
  case (Some g)
  show ?thesis
  proof (cases "matchmaking_score g < 0.2")
    case False
    then have "0.2 \<le> matchmaking_score g" by simp
    from round_unfair [OF Some this] show ?thesis by (simp add: ready_checks_started_def)
  next
    case True
    from reserved_calls [of c g w] obtain view where
      v: "calls (reserved_world c g w) =
        calls w @ [Send (next_message_id w) (MatchFound (player_ids_list g) (blue_expected_winrate g * 100)),
                StartReadyCheck (player_ids_list g) (channel c) (next_message_id w)]
          @ view @ [CheckmarkValidation (next_message_id w) (player_ids_list g) 10 180]"
      and s: "\<forall>x\<in>set view. \<exists>i rows. x = Send i (QueueView rows) \<or> x = Delete i"
      by blast
    let ?t = "[Send (next_message_id w) (MatchFound (player_ids_list g) (blue_expected_winrate g * 100)),
                StartReadyCheck (player_ids_list g) (channel c) (next_message_id w)]
          @ view @ [CheckmarkValidation (next_message_id w) (player_ids_list g) 10 180]
          @ outcome_calls ext c g w"
    from round_fair_calls [OF Some True] v
    have t: "calls (snd (matchmaking_round ext c w)) = calls w @ ?t" by simp
    have one: "ready_checks_started ?t = 1"
      using view_no_start [OF s] outcome_calls_no_start [of ext c g w]
      by (simp add: ready_checks_started_def)
    from sound Some have "length (player_ids_list g) = 10"
      "set (player_ids_list g) \<subseteq> qp_player_id ` set (GameQueue (channel c) (queue_players w))"
      unfolding search_from_pool_def by blast+
    then obtain e where "e \<in> set (GameQueue (channel c) (queue_players w))"
      by (cases "player_ids_list g") auto
    then have "filter (\<lambda>e. qp_channel_id e = channel c) (queue_players w) \<noteq> []"
      by (auto simp add: GameQueue_def filter_empty_conv)
    then have "1 \<le> chan_size (channel c) (queue_players w)"
      by (cases "filter (\<lambda>e. qp_channel_id e = channel c) (queue_players w)")
         (simp_all add: chan_size_def)
    with t one show ?thesis by (intro exI [of _ ?t]) simp
  qed
qed

lemma round_restart_one_start:
  assumes "fst (matchmaking_round ext c w) = Restart"
  shows "ready_checks_started (new_calls w (snd (matchmaking_round ext c w))) = 1"
proof -
  from round_restart_found [OF assms] obtain g where
    found: "find_best_game ext (GameQueue (channel c) (queue_players w)) = Some g"
    and fair: "matchmaking_score g < 0.2" by blast
  from round_fair_new_calls [OF found fair] obtain view where
    nc: "new_calls w (snd (matchmaking_round ext c w)) =
           [Send (next_message_id w) (MatchFound (player_ids_list g) (blue_expected_winrate g * 100)),
            StartReadyCheck (player_ids_list g) (channel c) (next_message_id w)]
           @ view @ [CheckmarkValidation (next_message_id w) (player_ids_list g) 10 180]
           @ outcome_calls ext c g w"
    and view: "\<forall>x\<in>set view. \<exists>i rows. x = Send i (QueueView rows) \<or> x = Delete i"
    by blast
  from view_no_start [OF view] outcome_calls_no_start [of ext c g w] show ?thesis
    by (simp add: nc) (simp add: ready_checks_started_def)
qed

lemma round_calls_extend:
  "\<exists>t. calls (snd (matchmaking_round ext c w)) = calls w @ t"
proof (cases "find_best_game ext (GameQueue (channel c) (queue_players w))")
  case None
  then show ?thesis by (simp add: round_none)
next
  case (Some g)
  show ?thesis
  proof (cases "matchmaking_score g < 0.2")
    case False
    then have "0.2 \<le> matchmaking_score g" by simp
    from round_unfair [OF Some this] show ?thesis by simp
  next
    case True
    from round_fair_calls [OF Some True] reserved_calls [of c g w] show ?thesis by auto
  qed
qed

lemma run_calls_extend:
  "run_matchmaking_logic n ext c w = Some (out, w') \<Longrightarrow> \<exists>t. calls w' = calls w @ t"
proof (induction n arbitrary: w)
  case 0
  then show ?case by simp
next
  case (Suc n)
  obtain st w1 where r: "matchmaking_round ext c w = (st, w1)"
    by (cases "matchmaking_round ext c w")
  from round_calls_extend [of ext c w] r obtain t1 where t1: "calls w1 = calls w @ t1" by auto
  show ?case
  proof (cases st)
    case (Stop o1)
    with r Suc.prems t1 show ?thesis by auto
  next
    case Restart
    with r Suc.prems have "run_matchmaking_logic n ext c w1 = Some (out, w')" by simp
    from Suc.IH [OF this] t1 show ?thesis by auto
  qed
qed

lemma run_retries:
  assumes sound: "search_from_pool ext"
  shows "chan_size (channel c) (queue_players w) < n \<Longrightarrow>
         \<exists>k out w'. k \<le> chan_size (channel c) (queue_players w)
            \<and> (\<forall>i<k. fst (matchmaking_round ext c (retried ext c i w)) = Restart)
            \<and> matchmaking_round ext c (retried ext c k w) = (Stop out, w')
            \<and> run_matchmaking_logic n ext c w = Some (out, w')
            \<and> ready_checks_started (new_calls w w') \<le> chan_size (channel c) (queue_players w)
            \<and> k \<le> ready_checks_started (new_calls w w')"
proof (induction n arbitrary: w)
  case 0
  then show ?case by simp
next
  case (Suc n)
  obtain st w1 where r: "matchmaking_round ext c w = (st, w1)"
    by (cases "matchmaking_round ext c w")
  from round_progress [OF sound, of c w] r obtain t1 where
    t1: "calls w1 = calls w @ t1" "ready_checks_started t1 \<le> 1"
    "ready_checks_started t1 \<le> chan_size (channel c) (queue_players w)"
    by auto
  show ?case
  proof (cases st)
    case (Stop out)
    with r t1 have "0 \<le> chan_size (channel c) (queue_players w)
            \<and> (\<forall>i<0. fst (matchmaking_round ext c (retried ext c i w)) = Restart)
            \<and> matchmaking_round ext c (retried ext c 0 w) = (Stop out, w1)
            \<and> run_matchmaking_logic (Suc n) ext c w = Some (out, w1)
            \<and> ready_checks_started (new_calls w w1) \<le> chan_size (channel c) (queue_players w)
            \<and> 0 \<le> ready_checks_started (new_calls w w1)"
      by simp
    then show ?thesis by blast
  next
    case Restart
    with r have restart: "fst (matchmaking_round ext c w) = Restart"
      and w1: "snd (matchmaking_round ext c w) = w1" by simp_all
    from round_restart_decreases [OF sound restart] w1
    have less: "chan_size (channel c) (queue_players w1) < chan_size (channel c) (queue_players w)"
      by simp
    from round_restart_one_start [OF restart] w1 t1(1)
    have one: "ready_checks_started t1 = 1" by simp
    from less Suc.prems have "chan_size (channel c) (queue_players w1) < n" by simp
    from Suc.IH [OF this] obtain k out w' where
      k: "k \<le> chan_size (channel c) (queue_players w1)"
      and chain: "\<forall>i<k. fst (matchmaking_round ext c (retried ext c i w1)) = Restart"
      and last: "matchmaking_round ext c (retried ext c k w1) = (Stop out, w')"
      and run: "run_matchmaking_logic n ext c w1 = Some (out, w')"
      and upper: "ready_checks_started (new_calls w1 w') \<le> chan_size (channel c) (queue_players w1)"
      and lower: "k \<le> ready_checks_started (new_calls w1 w')"
      by blast
    from run_calls_extend [OF run] obtain t2 where t2: "calls w' = calls w1 @ t2" by blast
    then have n1: "new_calls w1 w' = t2" by (simp only: new_calls_def) simp
    from t1(1) t2 have "calls w' = calls w @ (t1 @ t2)" by simp
    then have "new_calls w w' = t1 @ t2" by (simp only: new_calls_def) simp
    with n1 have nc: "new_calls w w' = t1 @ new_calls w1 w'" by (simp only:)
    have chain': "\<forall>i<Suc k. fst (matchmaking_round ext c (retried ext c i w)) = Restart"
    proof (intro allI impI)
      fix i assume "i < Suc k"
      then show "fst (matchmaking_round ext c (retried ext c i w)) = Restart"
        using restart chain w1 by (cases i) simp_all
    qed
    from less k have "Suc k \<le> chan_size (channel c) (queue_players w)" by simp
    moreover from last w1 have "matchmaking_round ext c (retried ext c (Suc k) w) = (Stop out, w')"
      by simp
    moreover from r Restart run
    have "run_matchmaking_logic (Suc n) ext c w = Some (out, w')" by simp
    moreover from nc one upper less
    have "ready_checks_started (new_calls w w') \<le> chan_size (channel c) (queue_players w)"
      by simp
    moreover from nc one lower have "Suc k \<le> ready_checks_started (new_calls w w')" by simp
    ultimately show ?thesis using chain' by blast
  qed
qed

subsection \<open>The concrete channel\<close>

lemma demo_found:
  "find_best_game (demo_ext score evs rejects)
     (GameQueue (channel demo_ctx) (queue_players demo_world)) = Some (demo_game score)"
  by (simp add: demo_ext_def demo_search_def GameQueue_def demo_world_def demo_pool_def
        demo_entry_def demo_ctx_def)

lemma demo_score: "matchmaking_score (demo_game 0.1) < 0.2"
  by (simp add: demo_game_def)

lemma demo_fresh: "marks_fresh demo_world"
  by (simp add: marks_fresh_def demo_world_def demo_pool_def demo_entry_def)

lemma demo_declined:
  "checkmark_validation [1, 2, 3, 4, 5, 6, 7, 8, 9, 10] 10 180
     [accepts 5 1, declines 10 3, declines 12 4] = (Some False, [3])"
  by (simp add: checkmark_validation_def propose_def confirm_def count_accepted_def
        none_declined_def accepts_def declines_def Let_def)

lemma demo_timed_out:
  "checkmark_validation [1, 2, 3, 4, 5, 6, 7, 8, 9, 10] 10 180
     [accepts 5 1, accepts 20 2, accepts 30 4, accepts 31 5, accepts 32 6, accepts 40 7,
      accepts 50 8, accepts 200 3] = (None, [3, 9, 10])"
  by (simp add: checkmark_validation_def propose_def confirm_def count_accepted_def
        none_declined_def accepts_def declines_def Let_def)

lemma demo_validated:
  "checkmark_validation [1, 2, 3, 4, 5, 6, 7, 8, 9, 10] 10 180
     [accepts 5 1, accepts 20 2, accepts 30 4, accepts 31 5, accepts 32 6, accepts 40 7,
      accepts 50 8, accepts 60 3, accepts 61 10, accepts 70 9] = (Some True, [])"
  by (simp add: checkmark_validation_def propose_def confirm_def count_accepted_def
        none_declined_def accepts_def declines_def Let_def)

lemma demo_decline_ready:
  "checkmark_validation (player_ids_list (demo_game 0.1)) 10 180
     (confirmations (demo_ext 0.1 demo_decline rj) (next_message_id demo_world)) = (Some False, [3])"
  using demo_declined by (simp add: demo_game_def demo_ext_def demo_world_def demo_decline_def)

lemma demo_silence_ready:
  "checkmark_validation (player_ids_list (demo_game 0.1)) 10 180
     (confirmations (demo_ext 0.1 demo_silence rj) (next_message_id demo_world)) = (None, [3, 9, 10])"
  using demo_timed_out by (simp add: demo_game_def demo_ext_def demo_world_def demo_silence_def)

lemma retry_sound: "search_from_pool retry_ext"
proof -
  have first: "set [1, 2, 3, 4, 5, 6, 7, 8, 9, 10] \<subseteq> qp_player_id ` set q"
    if "map qp_player_id q = [1, 2, 3, 4, 5, 6, 7, 8, 9, 10, 11]" for q :: "queue_player list"
  proof -
    have "qp_player_id ` set q = set (map qp_player_id q)" by simp
    with that show ?thesis by simp
  qed
  have second: "set [1, 2, 4, 5, 6, 7, 8, 9, 10, 11] \<subseteq> qp_player_id ` set q"
    if "map qp_player_id q = [1, 2, 4, 5, 6, 7, 8, 9, 10, 11]" for q :: "queue_player list"
  proof -
    have "qp_player_id ` set q = set (map qp_player_id q)" by simp
    with that show ?thesis by simp
  qed
  from first second show ?thesis
    by (auto simp add: search_from_pool_def retry_ext_def retry_search_def demo_game_def
          retry_game_def split: if_splits)
qed

lemma retry_found:
  "find_best_game retry_ext (GameQueue (channel demo_ctx) (queue_players retry_world))
     = Some (demo_game 0.1)"
  by (simp add: retry_ext_def retry_search_def GameQueue_def retry_world_def retry_pool_def
        demo_entry_def demo_ctx_def)

lemma retry_declined:
  "checkmark_validation (player_ids_list (demo_game 0.1)) 10 180
     (confirmations retry_ext (next_message_id retry_world)) = (Some False, [3])"
  using demo_declined by (simp add: demo_game_def retry_ext_def retry_world_def demo_decline_def)

lemma retry_fresh: "marks_fresh retry_world"
  by (simp add: marks_fresh_def retry_world_def retry_pool_def demo_entry_def)

lemma retry_restart: "fst (matchmaking_round retry_ext demo_ctx retry_world) = Restart"
  by (rule round_declined(1) [OF retry_found demo_score retry_declined])

lemma retry_second_found:
  "find_best_game retry_ext
     (GameQueue (channel demo_ctx)
        (queue_players (snd (matchmaking_round retry_ext demo_ctx retry_world))))
     = Some retry_game"
proof -
  have "GameQueue (channel demo_ctx)
          (queue_players (snd (matchmaking_round retry_ext demo_ctx retry_world))) =
        filter (\<lambda>e. \<not> (qp_player_id e \<in> set [3] \<and> in_scope (InChannel (channel demo_ctx)) e))
          (GameQueue (channel demo_ctx) (queue_players retry_world))"
    using round_declined(2) [OF retry_found demo_score retry_declined]
      marks_fresh_next [OF retry_fresh]
    by (simp add: pool_after_cancel)
  also have "\<dots> =
      [demo_entry 1 TOP 7, demo_entry 2 TOP 7, demo_entry 4 JGL 7,
       demo_entry 5 MID 7, demo_entry 6 MID 7, demo_entry 7 BOT 7, demo_entry 8 BOT 7,
       demo_entry 9 SUP_role 7, demo_entry 10 SUP_role 7, demo_entry 11 JGL 7]"
    by (simp add: GameQueue_def retry_world_def retry_pool_def demo_entry_def demo_ctx_def
          in_scope_def)
  finally show ?thesis
    by (simp add: retry_ext_def retry_search_def demo_entry_def)
qed

section \<open>The claims\<close>

text \<open>
  Claim C1. For every candidate that the search returns, the round starts a ready check
  if and only if the candidate's imbalance score is strictly less than 0.2. With a score
  of 0.2 or more no ready check is started: the round returns, and its only call is the
  message that reports the favoured side's predicted winrate, \<open>(0.5 + score) * 100\<close>, as
  not started.
\<close>

theorem ready_check_started_iff_fair:
  assumes "find_best_game ext (GameQueue (channel c) (queue_players w)) = Some g"
  shows "((\<exists>ps ch m. StartReadyCheck ps ch m \<in> set (new_calls w (snd (matchmaking_round ext c w))))
            \<longleftrightarrow> matchmaking_score g < 0.2)
       \<and> (matchmaking_score g < 0.2 \<longrightarrow>
            StartReadyCheck (player_ids_list g) (channel c) (next_message_id w)
              \<in> set (new_calls w (snd (matchmaking_round ext c w))))
       \<and> (0.2 \<le> matchmaking_score g \<longrightarrow>
            fst (matchmaking_round ext c w) = Stop Returned
            \<and> new_calls w (snd (matchmaking_round ext c w)) =
                [Send (next_message_id w) (NotStarted ((0.5 + matchmaking_score g) * 100))])"
proof (cases "matchmaking_score g < 0.2")
  case True
  from round_fair_new_calls [OF assms True] obtain view where
    "new_calls w (snd (matchmaking_round ext c w)) =
           [Send (next_message_id w) (MatchFound (player_ids_list g) (blue_expected_winrate g * 100)),
            StartReadyCheck (player_ids_list g) (channel c) (next_message_id w)]
           @ view @ [CheckmarkValidation (next_message_id w) (player_ids_list g) 10 180]
           @ outcome_calls ext c g w"
    by blast
  then have "StartReadyCheck (player_ids_list g) (channel c) (next_message_id w)
              \<in> set (new_calls w (snd (matchmaking_round ext c w)))"
    by simp
  with True show ?thesis by auto
next
  case False
  then have u: "0.2 \<le> matchmaking_score g" by simp
  from round_unfair [OF assms u] False u show ?thesis by simp
qed

theorem ready_check_started_iff_fair_witness:
  "find_best_game (demo_ext 0.1 [] False) (GameQueue (channel demo_ctx) (queue_players demo_world))
     = Some (demo_game 0.1)
   \<and> find_best_game (demo_ext 0.3 [] False) (GameQueue (channel demo_ctx) (queue_players demo_world))
     = Some (demo_game 0.3)
   \<and> StartReadyCheck [1, 2, 3, 4, 5, 6, 7, 8, 9, 10] 7 0
       \<in> set (new_calls demo_world (snd (matchmaking_round (demo_ext 0.1 [] False) demo_ctx demo_world)))
   \<and> new_calls demo_world (snd (matchmaking_round (demo_ext 0.3 [] False) demo_ctx demo_world))
       = [Send 0 (NotStarted 80)]"
proof -
  have fair: "find_best_game (demo_ext 0.1 [] False)
       (GameQueue (channel demo_ctx) (queue_players demo_world)) = Some (demo_game 0.1)"
    by (rule demo_found)
  have unfair: "find_best_game (demo_ext 0.3 [] False)
       (GameQueue (channel demo_ctx) (queue_players demo_world)) = Some (demo_game 0.3)"
    by (rule demo_found)
  from ready_check_started_iff_fair [OF fair] ready_check_started_iff_fair [OF unfair]
    fair unfair
  show ?thesis by (simp add: demo_game_def demo_ctx_def demo_world_def)
qed

text \<open>
  Claim C2. When the ready check ends with a decline (ready is \<open>False\<close>): the drop set
  is exactly the first reserved participant to decline, who did so before the deadline;
  reactions that arrive later, a second decline among them, leave the outcome and the
  drop set as they are; the round calls \<open>cancel_ready_check\<close> with that drop set and the
  proposing channel, and restarts; afterwards the pool of the proposing channel is the
  pool before the proposal without the entries of the drop set, and the pool of every
  other channel is what it was before the proposal, so every other reserved participant
  is back in the queue.
\<close>

theorem decline_drops_first_decliner_from_channel:
  assumes fresh: "marks_fresh w"
    and found: "find_best_game ext (GameQueue (channel c) (queue_players w)) = Some g"
    and fair: "matchmaking_score g < 0.2"
    and declined: "checkmark_validation (player_ids_list g) 10 180
                     (confirmations ext (next_message_id w)) = (Some False, d)"
  shows "(\<exists>e. find (\<lambda>e. \<not> ev_accept e \<and> ev_player e \<in> set (player_ids_list g))
                 (confirmations ext (next_message_id w)) = Some e
             \<and> e \<in> set (before_deadline 180 (confirmations ext (next_message_id w)))
             \<and> set d = {ev_player e})
       \<and> (\<forall>later. checkmark_validation (player_ids_list g) 10 180
                      (confirmations ext (next_message_id w) @ later) = (Some False, d))
       \<and> fst (matchmaking_round ext c w) = Restart
       \<and> CancelReadyCheck (next_message_id w) d (InChannel (channel c))
            \<in> set (new_calls w (snd (matchmaking_round ext c w)))
       \<and> (\<forall>ch. GameQueue ch (queue_players (snd (matchmaking_round ext c w))) =
                 filter (\<lambda>e. \<not> (qp_player_id e \<in> set d \<and> ch = channel c))
                   (GameQueue ch (queue_players w)))"
proof -
  have drop_set: "\<exists>e. find (\<lambda>e. \<not> ev_accept e \<and> ev_player e \<in> set (player_ids_list g))
                 (confirmations ext (next_message_id w)) = Some e
             \<and> e \<in> set (before_deadline 180 (confirmations ext (next_message_id w)))
             \<and> set d = {ev_player e}"
    using declined_drop_set [OF _ declined] by simp
  have first_wins: "\<forall>later. checkmark_validation (player_ids_list g) 10 180
                      (confirmations ext (next_message_id w) @ later) = (Some False, d)"
    using checkmark_declined_absorbs [OF declined] by blast
  from round_fair_new_calls [OF found fair] outcome_calls_declined [OF declined, of c]
  have called: "CancelReadyCheck (next_message_id w) d (InChannel (channel c))
            \<in> set (new_calls w (snd (matchmaking_round ext c w)))"
    by auto
  have pools: "GameQueue ch (queue_players (snd (matchmaking_round ext c w))) =
                 filter (\<lambda>e. \<not> (qp_player_id e \<in> set d \<and> ch = channel c))
                   (GameQueue ch (queue_players w))" for ch
  proof -
    have "GameQueue ch (queue_players (snd (matchmaking_round ext c w))) =
            filter (\<lambda>e. \<not> (qp_player_id e \<in> set d \<and> in_scope (InChannel (channel c)) e))
              (GameQueue ch (queue_players w))"
      using round_declined(2) [OF found fair declined] marks_fresh_next [OF fresh]
      by (simp add: pool_after_cancel)
    also have "\<dots> = filter (\<lambda>e. \<not> (qp_player_id e \<in> set d \<and> ch = channel c))
                   (GameQueue ch (queue_players w))"
      by (rule filter_cong) (auto simp add: in_scope_def dest: GameQueue_channel)
    finally show ?thesis .
  qed
  from drop_set first_wins round_declined(1) [OF found fair declined] called pools
  show ?thesis by blast
qed

theorem decline_drops_first_decliner_from_channel_witness:
  "marks_fresh demo_world
   \<and> find_best_game (demo_ext 0.1 demo_decline False)
        (GameQueue (channel demo_ctx) (queue_players demo_world)) = Some (demo_game 0.1)
   \<and> matchmaking_score (demo_game 0.1) < 0.2
   \<and> checkmark_validation (player_ids_list (demo_game 0.1)) 10 180
        (confirmations (demo_ext 0.1 demo_decline False) (next_message_id demo_world))
       = (Some False, [3])
   \<and> GameQueue 7 (queue_players (snd (matchmaking_round (demo_ext 0.1 demo_decline False)
                                         demo_ctx demo_world)))
       = [demo_entry 1 TOP 7, demo_entry 2 TOP 7, demo_entry 4 JGL 7, demo_entry 5 MID 7,
          demo_entry 6 MID 7, demo_entry 7 BOT 7, demo_entry 8 BOT 7, demo_entry 9 SUP_role 7,
          demo_entry 10 SUP_role 7]
   \<and> GameQueue 8 (queue_players (snd (matchmaking_round (demo_ext 0.1 demo_decline False)
                                         demo_ctx demo_world)))
       = [demo_entry 3 MID 8]"
proof -
  have found: "find_best_game (demo_ext 0.1 demo_decline False)
        (GameQueue (channel demo_ctx) (queue_players demo_world)) = Some (demo_game 0.1)"
    by (rule demo_found)
  have p7: "filter (\<lambda>e. \<not> (qp_player_id e \<in> set [3] \<and> 7 = channel demo_ctx))
              (GameQueue 7 (queue_players demo_world))
       = [demo_entry 1 TOP 7, demo_entry 2 TOP 7, demo_entry 4 JGL 7, demo_entry 5 MID 7,
          demo_entry 6 MID 7, demo_entry 7 BOT 7, demo_entry 8 BOT 7, demo_entry 9 SUP_role 7,
          demo_entry 10 SUP_role 7]"
    by (simp add: GameQueue_def demo_world_def demo_pool_def demo_entry_def demo_ctx_def)
  have p8: "filter (\<lambda>e. \<not> (qp_player_id e \<in> set [3] \<and> 8 = channel demo_ctx))
              (GameQueue 8 (queue_players demo_world)) = [demo_entry 3 MID 8]"
    by (simp add: GameQueue_def demo_world_def demo_pool_def demo_entry_def demo_ctx_def)
  from decline_drops_first_decliner_from_channel
         [OF demo_fresh found demo_score demo_decline_ready]
  have "\<forall>ch. GameQueue ch (queue_players (snd (matchmaking_round (demo_ext 0.1 demo_decline False)
                                         demo_ctx demo_world))) =
          filter (\<lambda>e. \<not> (qp_player_id e \<in> set [3] \<and> ch = channel demo_ctx))
            (GameQueue ch (queue_players demo_world))"
    by blast
  with p7 p8 demo_fresh found demo_score demo_decline_ready [of False] show ?thesis
    by presburger
qed

text \<open>
  Claim C3. When the ready check times out (ready is \<open>None\<close>): the drop set is every
  validating participant who has not reacted before the deadline; a participant who
  accepted in time is not in it; the round calls \<open>cancel_ready_check\<close> with that drop set
  and the server, and restarts; afterwards the pool of every channel is the pool before
  the proposal without the entries of the drop set, so the accepted participants are
  back in the queue.
\<close>

theorem timeout_drops_pending_everywhere:
  assumes fresh: "marks_fresh w"
    and found: "find_best_game ext (GameQueue (channel c) (queue_players w)) = Some g"
    and fair: "matchmaking_score g < 0.2"
    and timed_out: "checkmark_validation (player_ids_list g) 10 180
                      (confirmations ext (next_message_id w)) = (None, d)"
  shows "set d = {q \<in> set (player_ids_list g).
                   q \<notin> ev_player ` set (before_deadline 180 (confirmations ext (next_message_id w)))}
       \<and> (\<forall>e\<in>set (before_deadline 180 (confirmations ext (next_message_id w))).
             ev_accept e \<longrightarrow> ev_player e \<notin> set d)
       \<and> fst (matchmaking_round ext c w) = Restart
       \<and> CancelReadyCheck (next_message_id w) d (InServer (guild c))
            \<in> set (new_calls w (snd (matchmaking_round ext c w)))
       \<and> (\<forall>ch. GameQueue ch (queue_players (snd (matchmaking_round ext c w))) =
                 filter (\<lambda>e. qp_player_id e \<notin> set d) (GameQueue ch (queue_players w)))"
proof -
  have drop_set: "set d = {q \<in> set (player_ids_list g).
                   q \<notin> ev_player ` set (before_deadline 180 (confirmations ext (next_message_id w)))}"
    by (rule timed_out_drop_set [OF timed_out])
  then have accepted: "\<forall>e\<in>set (before_deadline 180 (confirmations ext (next_message_id w))).
             ev_accept e \<longrightarrow> ev_player e \<notin> set d"
    by auto
  from round_fair_new_calls [OF found fair] outcome_calls_timed_out [OF timed_out, of c]
  have called: "CancelReadyCheck (next_message_id w) d (InServer (guild c))
            \<in> set (new_calls w (snd (matchmaking_round ext c w)))"
    by auto
  have pools: "GameQueue ch (queue_players (snd (matchmaking_round ext c w))) =
                 filter (\<lambda>e. qp_player_id e \<notin> set d) (GameQueue ch (queue_players w))" for ch
    using round_timed_out(2) [OF found fair timed_out] marks_fresh_next [OF fresh]
    by (simp add: pool_after_cancel in_scope_def)
  from drop_set accepted round_timed_out(1) [OF found fair timed_out] called pools
  show ?thesis by blast
qed

theorem timeout_drops_pending_everywhere_witness:
  "marks_fresh demo_world
   \<and> find_best_game (demo_ext 0.1 demo_silence False)
        (GameQueue (channel demo_ctx) (queue_players demo_world)) = Some (demo_game 0.1)
   \<and> matchmaking_score (demo_game 0.1) < 0.2
   \<and> checkmark_validation (player_ids_list (demo_game 0.1)) 10 180
        (confirmations (demo_ext 0.1 demo_silence False) (next_message_id demo_world))
       = (None, [3, 9, 10])
   \<and> GameQueue 7 (queue_players (snd (matchmaking_round (demo_ext 0.1 demo_silence False)
                                         demo_ctx demo_world)))
       = [demo_entry 1 TOP 7, demo_entry 2 TOP 7, demo_entry 4 JGL 7, demo_entry 5 MID 7,
          demo_entry 6 MID 7, demo_entry 7 BOT 7, demo_entry 8 BOT 7]
   \<and> GameQueue 8 (queue_players (snd (matchmaking_round (demo_ext 0.1 demo_silence False)
                                         demo_ctx demo_world))) = []"
proof -
  have found: "find_best_game (demo_ext 0.1 demo_silence False)
        (GameQueue (channel demo_ctx) (queue_players demo_world)) = Some (demo_game 0.1)"
    by (rule demo_found)
  have p7: "filter (\<lambda>e. qp_player_id e \<notin> set [3, 9, 10]) (GameQueue 7 (queue_players demo_world))
       = [demo_entry 1 TOP 7, demo_entry 2 TOP 7, demo_entry 4 JGL 7, demo_entry 5 MID 7,
          demo_entry 6 MID 7, demo_entry 7 BOT 7, demo_entry 8 BOT 7]"
    by (simp add: GameQueue_def demo_world_def demo_pool_def demo_entry_def)
  have p8: "filter (\<lambda>e. qp_player_id e \<notin> set [3, 9, 10]) (GameQueue 8 (queue_players demo_world))
       = []"
    by (simp add: GameQueue_def demo_world_def demo_pool_def demo_entry_def)
  from timeout_drops_pending_everywhere [OF demo_fresh found demo_score demo_silence_ready]
  have "\<forall>ch. GameQueue ch (queue_players (snd (matchmaking_round (demo_ext 0.1 demo_silence False)
                                         demo_ctx demo_world))) =
          filter (\<lambda>e. qp_player_id e \<notin> set [3, 9, 10]) (GameQueue ch (queue_players demo_world))"
    by blast
  with p7 p8 demo_fresh found demo_score demo_silence_ready [of False] show ?thesis
    by presburger
qed

text \<open>
  Claim C4. A round that proposes awaits the validation of the candidate's ten
  participants with threshold 10 and a deadline of \<open>3 * 60 = 180\<close> time units. If the round
  validates the ready check, then the proposal has reached \<open>Validated\<close> with at least 10
  accepted and nobody declined; every accepted state comes from an accept that arrived
  before the deadline; and with ten participants all ten have accepted.
\<close>

theorem validated_only_when_unanimous:
  assumes found: "find_best_game ext (GameQueue (channel c) (queue_players w)) = Some g"
    and fair: "matchmaking_score g < 0.2"
  defines "r \<equiv> ready_check (propose (player_ids_list g) 10 (3 * 60))
                  (confirmations ext (next_message_id w))"
  shows "CheckmarkValidation (next_message_id w) (player_ids_list g) 10 (3 * 60)
           \<in> set (new_calls w (snd (matchmaking_round ext c w)))
       \<and> ((\<exists>m. ValidateReadyCheck m \<in> set (new_calls w (snd (matchmaking_round ext c w)))) \<longrightarrow>
             prop_state r = Validated \<and> prop_threshold r = 10 \<and> prop_deadline r = 180
             \<and> 10 \<le> count_accepted r \<and> none_declined r
             \<and> (\<forall>q. prop_conf r q = Accepted \<longrightarrow>
                   (\<exists>e\<in>set (before_deadline 180 (confirmations ext (next_message_id w))).
                      ev_player e = q \<and> ev_accept e))
             \<and> (length (player_ids_list g) = 10 \<longrightarrow>
                   (\<forall>q\<in>set (player_ids_list g). prop_conf r q = Accepted)))"
proof -
  from round_fair_new_calls [OF found fair] obtain view where
    nc: "new_calls w (snd (matchmaking_round ext c w)) =
           [Send (next_message_id w) (MatchFound (player_ids_list g) (blue_expected_winrate g * 100)),
            StartReadyCheck (player_ids_list g) (channel c) (next_message_id w)]
           @ view @ [CheckmarkValidation (next_message_id w) (player_ids_list g) 10 180]
           @ outcome_calls ext c g w"
    and view: "\<forall>x\<in>set view. \<exists>i rows. x = Send i (QueueView rows) \<or> x = Delete i"
    by blast
  from nc have awaited: "CheckmarkValidation (next_message_id w) (player_ids_list g) 10 (3 * 60)
           \<in> set (new_calls w (snd (matchmaking_round ext c w)))"
    by simp
  have r: "r = ready_check (propose (player_ids_list g) 10 180)
                  (confirmations ext (next_message_id w))"
    by (simp add: r_def)
  have unanimous: "prop_state r = Validated \<and> prop_threshold r = 10 \<and> prop_deadline r = 180
             \<and> 10 \<le> count_accepted r \<and> none_declined r
             \<and> (\<forall>q. prop_conf r q = Accepted \<longrightarrow>
                   (\<exists>e\<in>set (before_deadline 180 (confirmations ext (next_message_id w))).
                      ev_player e = q \<and> ev_accept e))
             \<and> (length (player_ids_list g) = 10 \<longrightarrow>
                   (\<forall>q\<in>set (player_ids_list g). prop_conf r q = Accepted))"
    if v: "ValidateReadyCheck m \<in> set (new_calls w (snd (matchmaking_round ext c w)))" for m
  proof (cases rule: checkmark_cases
        [of "player_ids_list g" 10 180 "confirmations ext (next_message_id w)"])
    case (1 d)
    from checkmark_true [OF 1] validated_unanimous [OF 1]
    have a: "prop_state r = Validated" "10 \<le> count_accepted r" "none_declined r"
      by (simp_all add: r)
    have b: "\<exists>e\<in>set (before_deadline 180 (confirmations ext (next_message_id w))).
                      ev_player e = q \<and> ev_accept e" if "prop_conf r q = Accepted" for q
      using ready_check_accepted [of "propose (player_ids_list g) 10 180"
          "confirmations ext (next_message_id w)" q] that
      by (simp add: r)
    have c: "prop_conf r q = Accepted"
      if "length (player_ids_list g) = 10" "q \<in> set (player_ids_list g)" for q
    proof -
      from a(2) that(1)
      have "length (player_ids_list g)
              \<le> length (filter (\<lambda>q. prop_conf r q = Accepted) (player_ids_list g))"
        by (simp add: count_accepted_def r)
      from filter_all_of [OF this that(2)] show ?thesis .
    qed
    from a b c show ?thesis by (simp add: r)
  next
    case (2 d)
    from v nc view outcome_calls_declined [OF 2, of c] have False
      by (auto split: list.splits)
    then show ?thesis ..
  next
    case (3 d)
    from v nc view outcome_calls_timed_out [OF 3, of c] have False by auto
    then show ?thesis ..
  qed
  with awaited show ?thesis by blast
qed

theorem validated_only_when_unanimous_witness:
  "find_best_game (demo_ext 0.1 all_accept False)
       (GameQueue (channel demo_ctx) (queue_players demo_world)) = Some (demo_game 0.1)
   \<and> matchmaking_score (demo_game 0.1) < 0.2
   \<and> ValidateReadyCheck 0
       \<in> set (new_calls demo_world
                (snd (matchmaking_round (demo_ext 0.1 all_accept False) demo_ctx demo_world)))
   \<and> length (player_ids_list (demo_game 0.1)) = 10
   \<and> list_all
        (\<lambda>q. prop_conf (ready_check (propose (player_ids_list (demo_game 0.1)) 10 (3 * 60))
                      (confirmations (demo_ext 0.1 all_accept False) (next_message_id demo_world)))
                q = Accepted)
        (player_ids_list (demo_game 0.1))"
proof -
  have found: "find_best_game (demo_ext 0.1 all_accept False)
       (GameQueue (channel demo_ctx) (queue_players demo_world)) = Some (demo_game 0.1)"
    by (rule demo_found)
  have ready: "checkmark_validation (player_ids_list (demo_game 0.1)) 10 180
        (confirmations (demo_ext 0.1 all_accept False) (next_message_id demo_world))
       = (Some True, [])"
    using demo_validated by (simp add: demo_game_def demo_ext_def demo_world_def all_accept_def)
  have rj: "\<not> store_rejects (demo_ext 0.1 all_accept False) (demo_game 0.1)"
    by (simp add: demo_ext_def)
  have n0: "next_message_id demo_world = 0" by (simp add: demo_world_def)
  from validate_call_when_stored [OF found demo_score ready rj] n0
  have v: "ValidateReadyCheck 0
       \<in> set (new_calls demo_world
                (snd (matchmaking_round (demo_ext 0.1 all_accept False) demo_ctx demo_world)))"
    by simp
  have len: "length (player_ids_list (demo_game 0.1)) = 10" by (simp add: demo_game_def)
  from validated_only_when_unanimous [OF found demo_score] v len found demo_score
  show ?thesis unfolding list_all_iff by blast
qed

text \<open>
  Claim C5. On \<open>ready is True\<close> the game is committed to the store first. When the store
  rejects the write, the round raises \<open>PersistenceError\<close> in the world as it was after
  the validation: no game is stored, the ready check is not validated and no validation
  message is sent. When the store takes the game, the calls end with the commit, then
  the validation of the ready check, then the validation message, and the stored game is
  the candidate with its new id.
\<close>

theorem validated_only_after_commit:
  assumes found: "find_best_game ext (GameQueue (channel c) (queue_players w)) = Some g"
    and fair: "matchmaking_score g < 0.2"
    and ready: "checkmark_validation (player_ids_list g) 10 180
                  (confirmations ext (next_message_id w)) = (Some True, d)"
  shows "(store_rejects ext g \<longrightarrow>
            matchmaking_round ext c w = (Stop (Raised PersistenceError), reserved_world c g w)
            \<and> games (snd (matchmaking_round ext c w)) = games w
            \<and> (\<forall>x\<in>set (new_calls w (snd (matchmaking_round ext c w))).
                  (\<forall>m. x \<noteq> ValidateReadyCheck m) \<and> (\<forall>i n. x \<noteq> Send i (GameValidated n))))
       \<and> (\<not> store_rejects ext g \<longrightarrow>
            fst (matchmaking_round ext c w) = Stop Returned
            \<and> (\<exists>pre g'. new_calls w (snd (matchmaking_round ext c w)) =
                   pre @ [SessionAdd g', ValidateReadyCheck (next_message_id w),
                          Send (Suc (Suc (next_message_id w))) (GameValidated (game_id g'))]
                 \<and> (\<forall>x\<in>set pre. \<forall>m. x \<noteq> ValidateReadyCheck m)
                 \<and> games (snd (matchmaking_round ext c w)) = games w @ [g']
                 \<and> g' = g\<lparr>game_id := Some (length (games w))\<rparr>))"
proof -
  from round_fair_new_calls [OF found fair] obtain view where
    nc: "new_calls w (snd (matchmaking_round ext c w)) =
           [Send (next_message_id w) (MatchFound (player_ids_list g) (blue_expected_winrate g * 100)),
            StartReadyCheck (player_ids_list g) (channel c) (next_message_id w)]
           @ view @ [CheckmarkValidation (next_message_id w) (player_ids_list g) 10 180]
           @ outcome_calls ext c g w"
    and view: "\<forall>x\<in>set view. \<exists>i rows. x = Send i (QueueView rows) \<or> x = Delete i"
    by blast
  have pre: "\<forall>x\<in>set ([Send (next_message_id w)
                  (MatchFound (player_ids_list g) (blue_expected_winrate g * 100)),
                StartReadyCheck (player_ids_list g) (channel c) (next_message_id w)]
               @ view @ [CheckmarkValidation (next_message_id w) (player_ids_list g) 10 180]).
           (\<forall>m. x \<noteq> ValidateReadyCheck m) \<and> (\<forall>i n. x \<noteq> Send i (GameValidated n))"
    using view by auto
  show ?thesis
  proof (cases "store_rejects ext g")
    case True
    with nc outcome_calls_validated [OF ready, of c] pre
    have "\<forall>x\<in>set (new_calls w (snd (matchmaking_round ext c w))).
            (\<forall>m. x \<noteq> ValidateReadyCheck m) \<and> (\<forall>i n. x \<noteq> Send i (GameValidated n))"
      by simp
    moreover from found fair ready True
    have "matchmaking_round ext c w = (Stop (Raised PersistenceError), reserved_world c g w)"
      by (simp add: round_fair Let_def)
    ultimately show ?thesis using True by (simp add: reserved_games)
  next
    case False
    with found fair ready
    have r: "matchmaking_round ext c w =
               (Stop Returned, validated_world (next_message_id w) g (reserved_world c g w))"
      by (simp add: round_fair Let_def)
    from nc outcome_calls_validated [OF ready, of c] False
    have "new_calls w (snd (matchmaking_round ext c w)) =
            ([Send (next_message_id w)
                  (MatchFound (player_ids_list g) (blue_expected_winrate g * 100)),
                StartReadyCheck (player_ids_list g) (channel c) (next_message_id w)]
               @ view @ [CheckmarkValidation (next_message_id w) (player_ids_list g) 10 180])
            @ [SessionAdd (g\<lparr>game_id := Some (length (games w))\<rparr>),
               ValidateReadyCheck (next_message_id w),
               Send (Suc (Suc (next_message_id w)))
                 (GameValidated (game_id (g\<lparr>game_id := Some (length (games w))\<rparr>)))]"
      by simp
    with pre have "\<exists>pre g'. new_calls w (snd (matchmaking_round ext c w)) =
                   pre @ [SessionAdd g', ValidateReadyCheck (next_message_id w),
                          Send (Suc (Suc (next_message_id w))) (GameValidated (game_id g'))]
                 \<and> (\<forall>x\<in>set pre. \<forall>m. x \<noteq> ValidateReadyCheck m)
                 \<and> games w @ [g\<lparr>game_id := Some (length (games w))\<rparr>] = games w @ [g']
                 \<and> g' = g\<lparr>game_id := Some (length (games w))\<rparr>"
      by blast
    with r False show ?thesis by (simp add: reserved_games)
  qed
qed

theorem validated_only_after_commit_witness:
  "find_best_game (demo_ext 0.1 all_accept False)
       (GameQueue (channel demo_ctx) (queue_players demo_world)) = Some (demo_game 0.1)
   \<and> matchmaking_score (demo_game 0.1) < 0.2
   \<and> checkmark_validation (player_ids_list (demo_game 0.1)) 10 180
        (confirmations (demo_ext 0.1 all_accept False) (next_message_id demo_world))
       = (Some True, [])
   \<and> \<not> store_rejects (demo_ext 0.1 all_accept False) (demo_game 0.1)
   \<and> store_rejects (demo_ext 0.1 all_accept True) (demo_game 0.1)
   \<and> fst (matchmaking_round (demo_ext 0.1 all_accept False) demo_ctx demo_world) = Stop Returned
   \<and> games (snd (matchmaking_round (demo_ext 0.1 all_accept False) demo_ctx demo_world))
       = [(demo_game 0.1)\<lparr>game_id := Some 0\<rparr>]
   \<and> matchmaking_round (demo_ext 0.1 all_accept True) demo_ctx demo_world
       = (Stop (Raised PersistenceError), reserved_world demo_ctx (demo_game 0.1) demo_world)"
proof -
  have score: "matchmaking_score (demo_game 0.1) < 0.2" by (simp add: demo_game_def)
  have ready: "checkmark_validation (player_ids_list (demo_game 0.1)) 10 180
        (confirmations (demo_ext 0.1 all_accept rj) (next_message_id demo_world))
       = (Some True, [])" for rj
    using demo_validated by (simp add: demo_game_def demo_ext_def demo_world_def all_accept_def)
  have rj: "\<not> store_rejects (demo_ext 0.1 all_accept False) (demo_game 0.1)"
    "store_rejects (demo_ext 0.1 all_accept True) (demo_game 0.1)"
    by (simp_all add: demo_ext_def)
  have g0: "games demo_world = []" by (simp add: demo_world_def)
  have found: "find_best_game (demo_ext 0.1 all_accept rj)
       (GameQueue (channel demo_ctx) (queue_players demo_world)) = Some (demo_game 0.1)" for rj
    by (rule demo_found)
  from validated_only_after_commit [OF found [of False] score ready [of False]]
    validated_only_after_commit [OF found [of True] score ready [of True]]
    found [of False] score ready [of False] rj g0
  show ?thesis by auto
qed

text \<open>
  Claim C6. When the author's last game already has a winner, \<open>won\<close> sends the notice
  that the game was already scored and returns: the stored games and the queue are
  unchanged and the scoring function is not called (the notice is the only call).
\<close>

theorem won_already_scored:
  assumes "get_last_game ext (author c) (guild c) (games w) = Some g"
    and "winner g = Some s"
  shows "fst (won ext c w) = Returned
       \<and> games (snd (won ext c w)) = games w
       \<and> queue_players (snd (won ext c w)) = queue_players w
       \<and> new_calls w (snd (won ext c w)) = [Send (next_message_id w) AlreadyScoredNotice]"
  using assms by (simp add: won_def game_and_winner_def Let_def)

theorem won_already_scored_witness:
  "get_last_game (demo_ext 0.1 [] False) (author demo_ctx) (guild demo_ctx)
      (games (demo_stored (Some BLUE)))
     = Some ((demo_game 0.1)\<lparr>game_id := Some 0, winner := Some BLUE\<rparr>)
   \<and> fst (won (demo_ext 0.1 [] False) demo_ctx (demo_stored (Some BLUE))) = Returned
   \<and> games (snd (won (demo_ext 0.1 [] False) demo_ctx (demo_stored (Some BLUE))))
       = [(demo_game 0.1)\<lparr>game_id := Some 0, winner := Some BLUE\<rparr>]
   \<and> new_calls (demo_stored (Some BLUE))
        (snd (won (demo_ext 0.1 [] False) demo_ctx (demo_stored (Some BLUE))))
       = [Send 0 AlreadyScoredNotice]"
proof -
  have h: "get_last_game (demo_ext 0.1 [] False) (author demo_ctx) (guild demo_ctx)
      (games (demo_stored (Some BLUE)))
     = Some ((demo_game 0.1)\<lparr>game_id := Some 0, winner := Some BLUE\<rparr>)"
    by (simp add: demo_ext_def demo_last_game_def demo_stored_def demo_world_def demo_ctx_def
          demo_game_def)
  from won_already_scored [OF h, of BLUE] h show ?thesis
    by (simp add: demo_stored_def demo_world_def)
qed

text \<open>
  Claim C7, as the code has it. The author's last game is stored without a winner, and
  \<open>cancel_game\<close> returns with the world as it was: the game is still stored. The
  command's documentation says that it cancels the game; its body ends in a note that
  the deletion is still to be written.
\<close>

theorem cancel_game_keeps_unscored_contest:
  "get_last_game (demo_ext 0.1 [] False) (author demo_ctx) (guild demo_ctx)
      (games (demo_stored None))
     = Some ((demo_game 0.1)\<lparr>game_id := Some 0, winner := None\<rparr>)
   \<and> cancel_game (demo_ext 0.1 [] False) demo_ctx (demo_stored None) = (Returned, demo_stored None)
   \<and> games (snd (cancel_game (demo_ext 0.1 [] False) demo_ctx (demo_stored None)))
       = [(demo_game 0.1)\<lparr>game_id := Some 0, winner := None\<rparr>]"
  by (simp add: cancel_game_def game_and_winner_def Let_def demo_ext_def demo_last_game_def
        demo_stored_def demo_world_def demo_ctx_def demo_game_def)

text \<open>
  Claim C8. A round restarts exactly when the search has returned a candidate with an
  imbalance score below 0.2 and its ready check has ended cancelled or timed out. After
  such a round, matchmaking is invoked again, for the same context and so the same
  channel, on the world that the drop and the re-queue have left; after any other round
  the orchestration returns with that round's outcome. With no candidate, or with a
  score of 0.2 or more, the round returns and the recursion ends. The retry terminates:
  when the search proposes ten participants who wait in the pool it was given, the
  orchestration returns after some number \<open>k\<close> of restarts followed by one round that
  stops, where \<open>k\<close> is at most the number of entries of the channel, every restart has
  started a ready check, and no more ready checks are started than the channel has
  entries, because every restart follows the drop of at least one entry of the channel.
\<close>

theorem matchmaking_terminates:
  "(fst (matchmaking_round ext c w) = Restart \<longleftrightarrow>
            (\<exists>g. find_best_game ext (GameQueue (channel c) (queue_players w)) = Some g
                \<and> matchmaking_score g < 0.2
                \<and> fst (checkmark_validation (player_ids_list g) 10 180
                          (confirmations ext (next_message_id w))) \<noteq> Some True))
       \<and> (\<forall>n. fst (matchmaking_round ext c w) = Restart \<longrightarrow>
              run_matchmaking_logic (Suc n) ext c w =
                run_matchmaking_logic n ext c (snd (matchmaking_round ext c w)))
       \<and> (\<forall>n out. fst (matchmaking_round ext c w) = Stop out \<longrightarrow>
              run_matchmaking_logic (Suc n) ext c w =
                Some (out, snd (matchmaking_round ext c w)))
       \<and> (find_best_game ext (GameQueue (channel c) (queue_players w)) = None
            \<or> (\<exists>g. find_best_game ext (GameQueue (channel c) (queue_players w)) = Some g
                   \<and> 0.2 \<le> matchmaking_score g)
          \<longrightarrow> fst (matchmaking_round ext c w) = Stop Returned)
       \<and> (search_from_pool ext \<longrightarrow>
            (\<exists>k out w'. k \<le> chan_size (channel c) (queue_players w)
              \<and> (\<forall>i<k. fst (matchmaking_round ext c (retried ext c i w)) = Restart)
              \<and> matchmaking_round ext c (retried ext c k w) = (Stop out, w')
              \<and> run_matchmaking_logic (Suc (chan_size (channel c) (queue_players w))) ext c w
                   = Some (out, w')
              \<and> ready_checks_started (new_calls w w') \<le> chan_size (channel c) (queue_players w)
              \<and> k \<le> ready_checks_started (new_calls w w')))"
proof -
  have retry: "run_matchmaking_logic (Suc n) ext c w =
                run_matchmaking_logic n ext c (snd (matchmaking_round ext c w))"
    if "fst (matchmaking_round ext c w) = Restart" for n
    using that by (cases "matchmaking_round ext c w") simp
  have stop: "run_matchmaking_logic (Suc n) ext c w = Some (out, snd (matchmaking_round ext c w))"
    if "fst (matchmaking_round ext c w) = Stop out" for n out
    using that by (cases "matchmaking_round ext c w") simp
  have ends: "fst (matchmaking_round ext c w) = Stop Returned"
    if "find_best_game ext (GameQueue (channel c) (queue_players w)) = None
            \<or> (\<exists>g. find_best_game ext (GameQueue (channel c) (queue_players w)) = Some g
                   \<and> 0.2 \<le> matchmaking_score g)"
    using that
  proof
    assume "find_best_game ext (GameQueue (channel c) (queue_players w)) = None"
    then show ?thesis by (simp add: round_none)
  next
    assume "\<exists>g. find_best_game ext (GameQueue (channel c) (queue_players w)) = Some g
                   \<and> 0.2 \<le> matchmaking_score g"
    then obtain g where "find_best_game ext (GameQueue (channel c) (queue_players w)) = Some g"
      "0.2 \<le> matchmaking_score g" by blast
    from round_unfair [OF this] show ?thesis by simp
  qed
  have "\<exists>k out w'. k \<le> chan_size (channel c) (queue_players w)
              \<and> (\<forall>i<k. fst (matchmaking_round ext c (retried ext c i w)) = Restart)
              \<and> matchmaking_round ext c (retried ext c k w) = (Stop out, w')
              \<and> run_matchmaking_logic (Suc (chan_size (channel c) (queue_players w))) ext c w
                   = Some (out, w')
              \<and> ready_checks_started (new_calls w w') \<le> chan_size (channel c) (queue_players w)
              \<and> k \<le> ready_checks_started (new_calls w w')"
    if "search_from_pool ext"
    using run_retries [OF that, of c w "Suc (chan_size (channel c) (queue_players w))"]
    by simp
  with round_restart_iff [of ext c w] retry stop ends show ?thesis by blast
qed

theorem matchmaking_terminates_witness:
  "search_from_pool retry_ext
   \<and> chan_size (channel demo_ctx) (queue_players retry_world) = 11
   \<and> fst (matchmaking_round retry_ext demo_ctx retry_world) = Restart
   \<and> fst (matchmaking_round retry_ext demo_ctx
             (snd (matchmaking_round retry_ext demo_ctx retry_world))) = Stop Returned
   \<and> run_matchmaking_logic 12 retry_ext demo_ctx retry_world
       = Some (Returned,
               snd (matchmaking_round retry_ext demo_ctx
                      (snd (matchmaking_round retry_ext demo_ctx retry_world))))
   \<and> new_calls (snd (matchmaking_round retry_ext demo_ctx retry_world))
        (snd (matchmaking_round retry_ext demo_ctx
                (snd (matchmaking_round retry_ext demo_ctx retry_world))))
       = [Send 3 (NotStarted 80)]
   \<and> (\<exists>k out w'. k \<le> 11
          \<and> run_matchmaking_logic 12 retry_ext demo_ctx retry_world = Some (out, w')
          \<and> ready_checks_started (new_calls retry_world w') \<le> 11
          \<and> k \<le> ready_checks_started (new_calls retry_world w'))"
proof -
  let ?w1 = "snd (matchmaking_round retry_ext demo_ctx retry_world)"
  have size: "chan_size (channel demo_ctx) (queue_players retry_world) = 11"
    by (simp add: chan_size_def demo_ctx_def retry_world_def retry_pool_def demo_entry_def)
  have unfair: "0.2 \<le> matchmaking_score retry_game" by (simp add: retry_game_def)
  from matchmaking_terminates [of retry_ext demo_ctx retry_world] retry_restart
  have first: "run_matchmaking_logic (Suc 11) retry_ext demo_ctx retry_world =
                 run_matchmaking_logic 11 retry_ext demo_ctx ?w1"
    by blast
  from matchmaking_terminates [of retry_ext demo_ctx ?w1] retry_second_found unfair
  have stops: "fst (matchmaking_round retry_ext demo_ctx ?w1) = Stop Returned"
    and second: "run_matchmaking_logic (Suc 10) retry_ext demo_ctx ?w1 =
                   Some (Returned, snd (matchmaking_round retry_ext demo_ctx ?w1))"
    by blast+
  have "Suc 11 = 12" "Suc 10 = 11" by simp_all
  with first second
  have run: "run_matchmaking_logic 12 retry_ext demo_ctx retry_world =
               Some (Returned, snd (matchmaking_round retry_ext demo_ctx ?w1))"
    by (simp only:)
  have "next_message_id ?w1 = 3"
    using round_restart_next [OF retry_restart] by (simp add: retry_world_def)
  with round_unfair [OF retry_second_found unfair]
  have sent: "new_calls ?w1 (snd (matchmaking_round retry_ext demo_ctx ?w1))
                = [Send 3 (NotStarted 80)]"
    by (simp add: new_calls_def retry_game_def)
  from matchmaking_terminates [of retry_ext demo_ctx retry_world] retry_sound
  have "\<exists>k out w'. k \<le> chan_size (channel demo_ctx) (queue_players retry_world)
          \<and> run_matchmaking_logic (Suc (chan_size (channel demo_ctx) (queue_players retry_world)))
               retry_ext demo_ctx retry_world = Some (out, w')
          \<and> ready_checks_started (new_calls retry_world w')
               \<le> chan_size (channel demo_ctx) (queue_players retry_world)
          \<and> k \<le> ready_checks_started (new_calls retry_world w')"
    by blast
  with size \<open>Suc 11 = 12\<close>
  have bound: "\<exists>k out w'. k \<le> 11
          \<and> run_matchmaking_logic 12 retry_ext demo_ctx retry_world = Some (out, w')
          \<and> ready_checks_started (new_calls retry_world w') \<le> 11
          \<and> k \<le> ready_checks_started (new_calls retry_world w')"
    by (simp only:)
  from retry_sound size retry_restart stops run sent bound show ?thesis by (simp only:)
qed

text \<open>
  Claim C9. Whenever the ready check resolves with a decline (ready is \<open>False\<close>), the
  returned drop set is not empty and its first element is one of the validating
  participants; so the round never raises \<open>StopIteration\<close> when it reads the first
  element for the cancellation message.
\<close>

theorem decline_drop_set_nonempty:
  "(\<forall>d. checkmark_validation ps threshold timeout evs = (Some False, d)
        \<longrightarrow> d \<noteq> [] \<and> hd d \<in> set ps)
   \<and> fst (matchmaking_round ext c w) \<noteq> Stop (Raised StopIteration)"
proof -
  have "d \<noteq> [] \<and> hd d \<in> set ps"
    if "checkmark_validation ps threshold timeout evs = (Some False, d)" for d
  proof -
    from declined_drop_nonempty [OF that] have "d \<noteq> []" "set d \<subseteq> set ps" by simp_all
    then show ?thesis by (cases d) auto
  qed
  with round_not_stop_iteration show ?thesis by blast
qed

theorem decline_drop_set_nonempty_witness:
  "checkmark_validation [1, 2, 3, 4, 5, 6, 7, 8, 9, 10] 10 180
     [accepts 5 1, declines 10 3, declines 12 4] = (Some False, [3])
   \<and> [3::nat] \<noteq> [] \<and> hd [3::nat] \<in> set [1, 2, 3, 4, 5, 6, 7, 8, 9, 10]
   \<and> fst (matchmaking_round (demo_ext 0.1 [accepts 5 1, declines 10 3, declines 12 4] False)
            demo_ctx demo_world) \<noteq> Stop (Raised StopIteration)"
  using decline_drop_set_nonempty [of "[1, 2, 3, 4, 5, 6, 7, 8, 9, 10]" 10 180
      "[accepts 5 1, declines 10 3, declines 12 4]"
      "demo_ext 0.1 [accepts 5 1, declines 10 3, declines 12 4] False" demo_ctx demo_world]
    demo_declined
  by blast

text \<open>
  Claim C10. When the search returns no candidate, or a candidate whose imbalance score
  is 0.2 or more, the orchestration returns after this one round with the queue table,
  and so every channel's waiting pool, unchanged; the stored games are unchanged; no
  ready check is started, validated or cancelled, for the only call it can make is the
  message that the match was not started.
\<close>

theorem unfair_or_none_leaves_pools:
  assumes "find_best_game ext (GameQueue (channel c) (queue_players w)) = None
           \<or> (\<exists>g. find_best_game ext (GameQueue (channel c) (queue_players w)) = Some g
                  \<and> 0.2 \<le> matchmaking_score g)"
  shows "\<exists>w'. run_matchmaking_logic (Suc n) ext c w = Some (Returned, w')
           \<and> queue_players w' = queue_players w
           \<and> games w' = games w
           \<and> (\<forall>x\<in>set (new_calls w w'). \<exists>i r. x = Send i (NotStarted r))"
  using assms
proof
  assume "find_best_game ext (GameQueue (channel c) (queue_players w)) = None"
  then have "matchmaking_round ext c w = (Stop Returned, w)" by (rule round_none)
  then show ?thesis by (simp add: new_calls_def)
next
  assume "\<exists>g. find_best_game ext (GameQueue (channel c) (queue_players w)) = Some g
                  \<and> 0.2 \<le> matchmaking_score g"
  then obtain g where g: "find_best_game ext (GameQueue (channel c) (queue_players w)) = Some g"
    "0.2 \<le> matchmaking_score g" by blast
  from round_unfair [OF g] show ?thesis by (simp add: new_calls_def)
qed

theorem unfair_or_none_leaves_pools_witness:
  "find_best_game (demo_ext 0.3 [] False) (GameQueue (channel demo_ctx) (queue_players demo_world))
     = Some (demo_game 0.3)
   \<and> 0.2 \<le> matchmaking_score (demo_game 0.3)
   \<and> (\<exists>w'. run_matchmaking_logic (Suc 0) (demo_ext 0.3 [] False) demo_ctx demo_world
              = Some (Returned, w')
           \<and> queue_players w' = queue_players demo_world
           \<and> games w' = games demo_world
           \<and> (\<forall>x\<in>set (new_calls demo_world w'). \<exists>i r. x = Send i (NotStarted r)))"
proof -
  have h: "find_best_game (demo_ext 0.3 [] False)
       (GameQueue (channel demo_ctx) (queue_players demo_world)) = Some (demo_game 0.3)"
    by (rule demo_found)
  have u: "0.2 \<le> matchmaking_score (demo_game 0.3)" by (simp add: demo_game_def)
  from h u have "find_best_game (demo_ext 0.3 [] False)
       (GameQueue (channel demo_ctx) (queue_players demo_world)) = None
     \<or> (\<exists>g. find_best_game (demo_ext 0.3 [] False)
              (GameQueue (channel demo_ctx) (queue_players demo_world)) = Some g
            \<and> 0.2 \<le> matchmaking_score g)" by blast
  from unfair_or_none_leaves_pools [OF this, of 0] h u show ?thesis
    by blast
qed

end
